theory Spec2Isabelle
  imports Complex_Main
begin

section \<open>Errors and tensors\<close>

text \<open>
  The exceptions the head can raise. \<open>RuntimeError\<close> stands for every shape
  mismatch reported by a tensor operation.
\<close>

datatype error = AssertionError | IndexError | ValueError | RuntimeError

definition bind :: "error + 'a \<Rightarrow> ('a \<Rightarrow> error + 'b) \<Rightarrow> error + 'b" where
  "bind m f = (case m of Inl e \<Rightarrow> Inl e | Inr v \<Rightarrow> f v)"

text \<open>Indexing a sequence with a non-negative index; out of range raises.\<close>

definition getitem :: "'a list \<Rightarrow> nat \<Rightarrow> error + 'a" where
  "getitem xs i = (if i < length xs then Inr (xs ! i) else Inl IndexError)"

text \<open>
  A tensor is its shape and its elements in row-major (logical) order. Element values
  are real numbers.
\<close>

record tensor =
  shape :: "nat list"
  data :: "real list"

record parameter = tensor +
  requires_grad :: bool

text \<open>
  The element \<open>t[i, j, k]\<close> of a 3-dimensional and \<open>t[i, j, k, l]\<close> of a
  4-dimensional tensor.
\<close>

definition at3 :: "tensor \<Rightarrow> nat \<Rightarrow> nat \<Rightarrow> nat \<Rightarrow> real" where
  "at3 t i j k = data t ! ((i * (shape t ! 1) + j) * (shape t ! 2) + k)"

definition at4 :: "tensor \<Rightarrow> nat \<Rightarrow> nat \<Rightarrow> nat \<Rightarrow> nat \<Rightarrow> real" where
  "at4 t i j k l = data t ! (((i * (shape t ! 1) + j) * (shape t ! 2) + k) * (shape t ! 3) + l)"

definition numel :: "'a tensor_scheme \<Rightarrow> nat" where
  "numel t = prod_list (shape t)"

definition wf_tensor :: "'a tensor_scheme \<Rightarrow> bool" where
  "wf_tensor t = (length (data t) = numel t)"

section \<open>Layers\<close>

text \<open>
  What \<open>build_effidehead_layer\<close> constructs: the layer kinds with their constructor
  arguments (input channels, output channels, kernel size and, for the convolution
  block, the stride).
\<close>

datatype layer =
  ConvBNSiLU nat nat nat nat
  | Conv2d nat nat nat

fun out_channels :: "layer \<Rightarrow> nat" where
  "out_channels (ConvBNSiLU i out k s) = out"
| "out_channels (Conv2d i out k) = out"

fun in_channels :: "layer \<Rightarrow> nat" where
  "in_channels (ConvBNSiLU i out k s) = i"
| "in_channels (Conv2d i out k) = i"

definition scale_layers :: "nat \<Rightarrow> nat \<Rightarrow> nat \<Rightarrow> nat \<Rightarrow> layer list" where
  "scale_layers c num_anchors num_classes reg_max =
     [ConvBNSiLU c c 1 1,
      ConvBNSiLU c c 3 1,
      ConvBNSiLU c c 3 1,
      Conv2d c (num_classes * num_anchors) 1,
      Conv2d c (4 * (reg_max + num_anchors)) 1,
      Conv2d c (4 * num_anchors) 1]"

definition build_effidehead_layer ::
  "nat list \<Rightarrow> nat \<Rightarrow> nat \<Rightarrow> nat \<Rightarrow> error + layer list" where
  "build_effidehead_layer channels_list num_anchors num_classes reg_max =
     bind (getitem channels_list 6) (\<lambda>c6.
     bind (getitem channels_list 8) (\<lambda>c8.
     bind (getitem channels_list 10) (\<lambda>c10.
       Inr (scale_layers c6 num_anchors num_classes reg_max
          @ scale_layers c8 num_anchors num_classes reg_max
          @ scale_layers c10 num_anchors num_classes reg_max))))"

text \<open>
  A layer as the head uses it: it owns a weight and a bias, and calling it maps a tensor
  to a tensor or raises. The map is a function of the current weight and bias. What a
  call returns is a tensor, so it has as many elements as its shape says; a function
  value without this property does not stand for a layer's result and counts as a
  failed call.
\<close>

record module =
  weight :: parameter
  bias :: parameter
  fwd :: "parameter \<Rightarrow> parameter \<Rightarrow> tensor \<Rightarrow> error + tensor"

definition call :: "module \<Rightarrow> tensor \<Rightarrow> error + tensor" where
  "call m x =
     bind (fwd m (weight m) (bias m) x) (\<lambda>y. if wf_tensor y then Inr y else Inl RuntimeError)"

section \<open>The detection head\<close>

record 'm detect =
  training :: bool
  nc :: int
  no :: int
  nl :: int
  grid :: "tensor list"
  prior_prob :: real
  inplace :: bool
  stride :: "int list"
  use_dfl :: bool
  reg_max :: nat
  proj_conv :: parameter
  proj :: "parameter option"
  grid_cell_offset :: real
  grid_cell_size :: real
  stems :: "'m list"
  cls_convs :: "'m list"
  reg_convs :: "'m list"
  cls_preds :: "'m list"
  reg_preds_dist :: "'m list"
  reg_preds :: "'m list"

text \<open>
  The loop of the constructor: scale \<open>i\<close> takes the six entries of \<open>head_layers\<close>
  from index \<open>6 * i\<close> on and appends one to each module list.
\<close>

definition append_scale :: "'m list \<Rightarrow> 'm detect \<Rightarrow> nat \<Rightarrow> error + 'm detect" where
  "append_scale head_layers d i =
     (let idx = i * 6 in
      bind (getitem head_layers idx) (\<lambda>m0.
      bind (getitem head_layers (idx + 1)) (\<lambda>m1.
      bind (getitem head_layers (idx + 2)) (\<lambda>m2.
      bind (getitem head_layers (idx + 3)) (\<lambda>m3.
      bind (getitem head_layers (idx + 4)) (\<lambda>m4.
      bind (getitem head_layers (idx + 5)) (\<lambda>m5.
        Inr (d\<lparr>stems := stems d @ [m0],
               cls_convs := cls_convs d @ [m1],
               reg_convs := reg_convs d @ [m2],
               cls_preds := cls_preds d @ [m3],
               reg_preds_dist := reg_preds_dist d @ [m4],
               reg_preds := reg_preds d @ [m5]\<rparr>))))))))"

fun append_scales :: "'m list \<Rightarrow> 'm detect \<Rightarrow> nat list \<Rightarrow> error + 'm detect" where
  "append_scales head_layers d [] = Inr d"
| "append_scales head_layers d (i # is) =
     bind (append_scale head_layers d i) (\<lambda>d'. append_scales head_layers d' is)"

text \<open>
  The constructor. \<open>w0\<close> is the weight the library draws for the fresh
  \<open>proj_conv\<close> convolution, of shape \<open>(1, reg_max + 1, 1, 1)\<close>. A new module is in
  training mode.
\<close>

definition Detect_init ::
  "int \<Rightarrow> int \<Rightarrow> bool \<Rightarrow> 'm list option \<Rightarrow> bool \<Rightarrow> nat \<Rightarrow> real list \<Rightarrow> error + 'm detect" where
  "Detect_init num_classes num_layers inplace_flag head_layers use_dfl_flag reg_max_arg w0 =
     (case head_layers of
        None \<Rightarrow> Inl AssertionError
      | Some hl \<Rightarrow>
          append_scales hl
            \<lparr>training = True,
             nc = num_classes,
             no = num_classes + 5,
             nl = num_layers,
             grid = replicate (nat num_layers) \<lparr>shape = [1], data = [0]\<rparr>,
             prior_prob = 1 / 100,
             inplace = inplace_flag,
             stride = [8, 16, 32],
             use_dfl = use_dfl_flag,
             reg_max = reg_max_arg,
             proj_conv = \<lparr>shape = [1, reg_max_arg + 1, 1, 1], data = w0, requires_grad = True\<rparr>,
             proj = None,
             grid_cell_offset = 1 / 2,
             grid_cell_size = 5,
             stems = [], cls_convs = [], reg_convs = [],
             cls_preds = [], reg_preds_dist = [], reg_preds = []\<rparr>
            [0..<nat num_layers])"

subsection \<open>Initialising the projections\<close>

definition fill :: "parameter \<Rightarrow> real \<Rightarrow> parameter" where
  "fill p v = p\<lparr>data := replicate (numel p) v\<rparr>"

definition view_flat :: "parameter \<Rightarrow> parameter" where
  "view_flat p = p\<lparr>shape := [numel p]\<rparr>"

definition init_conv :: "real \<Rightarrow> module \<Rightarrow> module" where
  "init_conv bias_value conv =
     (let b = fill (view_flat (bias conv)) bias_value;
          conv1 = conv\<lparr>bias := (view_flat b)\<lparr>requires_grad := True\<rparr>\<rparr>;
          w = fill (weight conv1) 0
      in conv1\<lparr>weight := w\<lparr>requires_grad := True\<rparr>\<rparr>)"

text \<open>\<open>linspace start end steps\<close> for at least one step.\<close>

definition linspace :: "real \<Rightarrow> real \<Rightarrow> nat \<Rightarrow> real list" where
  "linspace start end steps =
     (if steps = 1 then [start]
      else map (\<lambda>i. start + real i * ((end - start) / real (steps - 1))) [0..<steps])"

definition initialize_biases :: "module detect \<Rightarrow> module detect" where
  "initialize_biases d =
     (let d1 = d\<lparr>cls_preds := map (init_conv (- ln ((1 - prior_prob d) / prior_prob d))) (cls_preds d)\<rparr>;
          d2 = d1\<lparr>reg_preds_dist := map (init_conv 1) (reg_preds_dist d1)\<rparr>;
          d3 = d2\<lparr>reg_preds := map (init_conv 1) (reg_preds d2)\<rparr>;
          ramp = linspace 0 (real (reg_max d3)) (reg_max d3 + 1);
          d4 = d3\<lparr>proj := Some \<lparr>shape = [reg_max d3 + 1], data = ramp, requires_grad = False\<rparr>\<rparr>
      in d4\<lparr>proj_conv := \<lparr>shape = [1, reg_max d4 + 1, 1, 1], data = ramp, requires_grad = False\<rparr>\<rparr>)"


section \<open>Tensor operations\<close>

definition sigmoid :: "real \<Rightarrow> real" where
  "sigmoid v = 1 / (1 + exp (- v))"

definition torch_sigmoid :: "tensor \<Rightarrow> tensor" where
  "torch_sigmoid t = t\<lparr>data := map sigmoid (data t)\<rparr>"

text \<open>\<open>flatten(2)\<close>: the dimensions from index 2 on become one.\<close>

definition flatten2 :: "tensor \<Rightarrow> error + tensor" where
  "flatten2 t =
     (if length (shape t) < 3 then Inl IndexError
      else Inr (t\<lparr>shape := take 2 (shape t) @ [prod_list (drop 2 (shape t))]\<rparr>))"

text \<open>\<open>permute((0, 2, 1))\<close> of a 3-dimensional tensor.\<close>

definition permute021 :: "tensor \<Rightarrow> error + tensor" where
  "permute021 t =
     (case shape t of
        [b, c, l] \<Rightarrow>
          Inr \<lparr>shape = [b, l, c],
               data = concat (map (\<lambda>bi. concat (map (\<lambda>n.
                        map (\<lambda>k. data t ! ((bi * c + k) * l + n)) [0..<c]) [0..<l])) [0..<b])\<rparr>
      | _ \<Rightarrow> Inl RuntimeError)"

text \<open>\<open>permute(0, 2, 3, 1)\<close> of a 4-dimensional tensor: channels last.\<close>

definition permute0231 :: "tensor \<Rightarrow> error + tensor" where
  "permute0231 t =
     (case shape t of
        [b, c, h, w] \<Rightarrow>
          Inr \<lparr>shape = [b, h, w, c],
               data = concat (map (\<lambda>bi. concat (map (\<lambda>r. concat (map (\<lambda>col.
                        map (\<lambda>k. data t ! (((bi * c + k) * h + r) * w + col)) [0..<c])
                        [0..<w])) [0..<h])) [0..<b])\<rparr>
      | _ \<Rightarrow> Inl RuntimeError)"

text \<open>\<open>reshape(-1, 4)\<close> and \<open>reshape\<close> to a given shape: the element order stays.\<close>

definition reshape_rows4 :: "tensor \<Rightarrow> error + tensor" where
  "reshape_rows4 t =
     (if numel t mod 4 = 0 then Inr (t\<lparr>shape := [numel t div 4, 4]\<rparr>) else Inl RuntimeError)"

definition reshape :: "tensor \<Rightarrow> nat list \<Rightarrow> error + tensor" where
  "reshape t s = (if numel t = prod_list s then Inr (t\<lparr>shape := s\<rparr>) else Inl RuntimeError)"

definition imul :: "tensor \<Rightarrow> real \<Rightarrow> tensor" where
  "imul t s = t\<lparr>data := map (\<lambda>v. v * s) (data t)\<rparr>"

definition ones :: "nat list \<Rightarrow> tensor" where
  "ones s = \<lparr>shape = s, data = replicate (prod_list s) 1\<rparr>"

text \<open>
  \<open>torch.cat\<close> along axis \<open>a\<close>: the list is not empty, every tensor has the
  dimensions of the first one except along \<open>a\<close>. For each index of the leading
  dimensions the blocks of the tensors follow each other in list order.
\<close>

definition chunk :: "nat \<Rightarrow> tensor \<Rightarrow> nat \<Rightarrow> real list" where
  "chunk a t j = take (prod_list (drop a (shape t))) (drop (j * prod_list (drop a (shape t))) (data t))"

definition cat :: "tensor list \<Rightarrow> nat \<Rightarrow> error + tensor" where
  "cat ts a =
     (case ts of
        [] \<Rightarrow> Inl RuntimeError
      | t0 # _ \<Rightarrow>
          if a < length (shape t0)
             \<and> (\<forall>t \<in> set ts. length (shape t) = length (shape t0)
                    \<and> (shape t)[a := 0] = (shape t0)[a := 0])
          then Inr \<lparr>shape = (shape t0)[a := sum_list (map (\<lambda>t. shape t ! a) ts)],
                    data = concat (map (\<lambda>j. concat (map (\<lambda>t. chunk a t j) ts))
                             [0..<prod_list (take a (shape t0))])\<rparr>
          else Inl RuntimeError)"

text \<open>The slice \<open>xs[start:end]\<close> for \<open>0 \<le> start \<le> end\<close>.\<close>

definition slice :: "'a list \<Rightarrow> nat \<Rightarrow> nat \<Rightarrow> 'a list" where
  "slice xs start end = take (end - start) (drop start xs)"

section \<open>Anchor grid and box decoding\<close>

text \<open>
  Modelled from the spec: \<open>generate_anchors\<close> (module
  \<open>yolov6.assigners.anchor_generator\<close>) is not among the sources. Section 4.1 of the
  specification: from the feature maps' spatial shapes, the strides and the cell offset
  it yields the anchor points, scale-major and row-major within a scale, the point of
  row \<open>r\<close> and column \<open>c\<close> being \<open>(c + o, r + o)\<close>, and the parallel sequence of
  strides, \<open>s\<^sub>i\<close> repeated \<open>h\<^sub>i * w\<^sub>i\<close> times for scale \<open>i\<close>. It fails if the
  number of strides is not the number of scales or a feature map has zero spatial
  extent. The cell size is not used on this path.
\<close>

definition area :: "tensor \<Rightarrow> nat" where
  "area t = (case shape t of [b, c, h, w] \<Rightarrow> h * w | _ \<Rightarrow> 0)"

definition grid_points :: "real \<Rightarrow> nat \<Rightarrow> nat \<Rightarrow> (real \<times> real) list" where
  "grid_points off h w =
     concat (map (\<lambda>r. map (\<lambda>c. (real c + off, real r + off)) [0..<w]) [0..<h])"

definition scale_points :: "real \<Rightarrow> tensor \<Rightarrow> (real \<times> real) list" where
  "scale_points off t = (case shape t of [b, c, h, w] \<Rightarrow> grid_points off h w | _ \<Rightarrow> [])"

definition generate_anchors ::
  "tensor list \<Rightarrow> int list \<Rightarrow> real \<Rightarrow> real \<Rightarrow> error + ((real \<times> real) list \<times> real list)" where
  "generate_anchors feats fpn_strides cell_size cell_offset =
     (if length fpn_strides \<noteq> length feats then Inl ValueError
      else if \<exists>t \<in> set feats. area t = 0 then Inl ValueError
      else Inr (concat (map (scale_points cell_offset) feats),
                concat (map (\<lambda>(t, s). replicate (area t) (real_of_int s)) (zip feats fpn_strides))))"

text \<open>
  Modelled from the spec: \<open>dist2bbox\<close> (module \<open>yolov6.utils.general\<close>) is not
  among the sources. Section 4.2 of the specification: from \<open>N\<close> distance vectors
  (left, top, right, bottom) and \<open>N\<close> matching anchor points it yields \<open>N\<close> boxes;
  format \<open>xyxy\<close> is \<open>(x - left, y - top, x + right, y + bottom)\<close>, format
  \<open>xywh\<close> is the centre and the size of those corners. The contract covers equal
  counts only; other inputs are rejected as a shape mismatch.
\<close>

datatype box_format = XYXY | XYWH

definition decode_box :: "box_format \<Rightarrow> real \<Rightarrow> real \<Rightarrow> real \<Rightarrow> real \<Rightarrow> real \<times> real \<Rightarrow> real list" where
  "decode_box fmt dl dt dr db anchor =
     (let x1 = fst anchor - dl; y1 = snd anchor - dt;
          x2 = fst anchor + dr; y2 = snd anchor + db
      in case fmt of
           XYXY \<Rightarrow> [x1, y1, x2, y2]
         | XYWH \<Rightarrow> [(x1 + x2) / 2, (y1 + y2) / 2, x2 - x1, y2 - y1])"

definition dist2bbox :: "tensor \<Rightarrow> (real \<times> real) list \<Rightarrow> box_format \<Rightarrow> error + tensor" where
  "dist2bbox distance anchor_points fmt =
     (if shape distance = [length anchor_points, 4]
      then Inr \<lparr>shape = [length anchor_points, 4],
                data = concat (map (\<lambda>n. decode_box fmt
                          (data distance ! (4 * n)) (data distance ! (4 * n + 1))
                          (data distance ! (4 * n + 2)) (data distance ! (4 * n + 3))
                          (anchor_points ! n)) [0..<length anchor_points])\<rparr>
      else Inl RuntimeError)"

section \<open>The forward pass\<close>

subsection \<open>Training mode\<close>

text \<open>
  The layers of scale \<open>i\<close> applied to the feature map \<open>xi\<close>, as the first lines of
  the training loop's body do: the stem, then the classification branch and the
  regression branch with its two projections. The result is the stem's output, the
  classification logits, the distribution-form and the direct regression output.
\<close>

definition train_branch ::
  "module detect \<Rightarrow> tensor \<Rightarrow> nat \<Rightarrow> error + (tensor \<times> tensor \<times> tensor \<times> tensor)" where
  "train_branch d xi i =
     bind (getitem (stems d) i) (\<lambda>stem.
     bind (call stem xi) (\<lambda>feat.
     bind (getitem (cls_convs d) i) (\<lambda>cls_conv.
     bind (call cls_conv feat) (\<lambda>cls_feat.
     bind (getitem (cls_preds d) i) (\<lambda>cls_pred.
     bind (call cls_pred cls_feat) (\<lambda>cls_output.
     bind (getitem (reg_convs d) i) (\<lambda>reg_conv.
     bind (call reg_conv feat) (\<lambda>reg_feat.
     bind (getitem (reg_preds_dist d) i) (\<lambda>reg_pred_dist.
     bind (call reg_pred_dist reg_feat) (\<lambda>reg_output.
     bind (getitem (reg_preds d) i) (\<lambda>reg_pred.
     bind (call reg_pred reg_feat) (\<lambda>reg_output_lrtb.
       Inr (feat, cls_output, reg_output, reg_output_lrtb)))))))))))))"

text \<open>\<open>t.flatten(2).permute((0, 2, 1))\<close>\<close>

definition flatperm :: "tensor \<Rightarrow> error + tensor" where
  "flatperm t = bind (flatten2 t) permute021"

text \<open>
  One iteration of the training loop. The state is the feature-map list \<open>x\<close>, whose
  slot \<open>i\<close> is overwritten with the stem's output, and the three lists of per-scale
  outputs.
\<close>

type_synonym train_state = "tensor list \<times> tensor list \<times> tensor list \<times> tensor list"

definition train_scale :: "module detect \<Rightarrow> train_state \<Rightarrow> nat \<Rightarrow> error + train_state" where
  "train_scale d st i =
     (case st of (x, cls_score_list, reg_distri_list, reg_lrtb_list) \<Rightarrow>
      bind (getitem x i) (\<lambda>xi.
      bind (train_branch d xi i) (\<lambda>(feat, cls_output0, reg_output, reg_output_lrtb).
      let cls_output = torch_sigmoid cls_output0 in
      bind (flatperm cls_output) (\<lambda>c.
      bind (flatperm reg_output) (\<lambda>r.
      bind (flatperm reg_output_lrtb) (\<lambda>l.
        Inr (x[i := feat], cls_score_list @ [c], reg_distri_list @ [r], reg_lrtb_list @ [l])))))))"

fun train_loop :: "module detect \<Rightarrow> train_state \<Rightarrow> nat list \<Rightarrow> error + train_state" where
  "train_loop d st [] = Inr st"
| "train_loop d st (i # is) = bind (train_scale d st i) (\<lambda>st'. train_loop d st' is)"

definition forward_train ::
  "module detect \<Rightarrow> tensor list \<Rightarrow> error + (tensor list \<times> tensor \<times> tensor \<times> tensor)" where
  "forward_train d x =
     bind (train_loop d (x, [], [], []) [0..<nat (nl d)]) (\<lambda>st.
     case st of (x', cls_score_list, reg_distri_list, reg_lrtb_list) \<Rightarrow>
     bind (cat cls_score_list 1) (\<lambda>cls_scores.
     bind (cat reg_distri_list 1) (\<lambda>reg_distri.
     bind (cat reg_lrtb_list 1) (\<lambda>reg_lrtb.
       Inr (x', cls_scores, reg_distri, reg_lrtb)))))"

subsection \<open>Inference mode\<close>

text \<open>
  The layers of scale \<open>i\<close> as the inference loop's body applies them: the stem, the
  two feature layers, the classification projection and the direct regression
  projection. The result is the classification logits and the regression output.
\<close>

definition eval_branch :: "module detect \<Rightarrow> tensor \<Rightarrow> nat \<Rightarrow> error + (tensor \<times> tensor)" where
  "eval_branch d xi i =
     bind (getitem (stems d) i) (\<lambda>stem.
     bind (call stem xi) (\<lambda>feat.
     bind (getitem (cls_convs d) i) (\<lambda>cls_conv.
     bind (call cls_conv feat) (\<lambda>cls_feat.
     bind (getitem (reg_convs d) i) (\<lambda>reg_conv.
     bind (call reg_conv feat) (\<lambda>reg_feat.
     bind (getitem (cls_preds d) i) (\<lambda>cls_pred.
     bind (call cls_pred cls_feat) (\<lambda>cls_output.
     bind (getitem (reg_preds d) i) (\<lambda>reg_pred.
     bind (call reg_pred reg_feat) (\<lambda>reg_output.
       Inr (cls_output, reg_output)))))))))))"

text \<open>
  One iteration of the inference loop, from the running start index. The result records
  the local variables of the iteration: the slice bounds, the two slices and the
  output appended for the scale.
\<close>

record scale_locals =
  start_idx :: nat
  end_idx :: nat
  scale_anchor_points :: "(real \<times> real) list"
  scale_stride :: "real list"
  scale_output :: tensor

definition infer_scale ::
  "module detect \<Rightarrow> tensor list \<Rightarrow> (real \<times> real) list \<Rightarrow> real list \<Rightarrow> nat \<Rightarrow> nat
     \<Rightarrow> error + scale_locals" where
  "infer_scale d x anchor_points stride_tensor start i =
     bind (getitem x i) (\<lambda>xi.
     case shape xi of
       [b, c, h, w] \<Rightarrow>
         bind (eval_branch d xi i) (\<lambda>(cls_output0, reg_output0).
         bind (permute0231 (torch_sigmoid cls_output0)) (\<lambda>cls_output.
         bind (permute0231 reg_output0) (\<lambda>reg_output.
         let e = start + h * w;
             anchors_i = slice anchor_points start e;
             strides_i = slice stride_tensor start e in
         bind (reshape_rows4 reg_output) (\<lambda>distance.
         bind (dist2bbox distance anchors_i XYWH) (\<lambda>boxes.
         bind (reshape boxes [b, h, w, 4]) (\<lambda>pred_bboxes.
         bind (getitem strides_i 0) (\<lambda>s0.
         bind (cat [imul pred_bboxes s0, ones [b, h, w, 1], cls_output] 3) (\<lambda>out.
           Inr \<lparr>start_idx = start, end_idx = e,
                scale_anchor_points = anchors_i, scale_stride = strides_i,
                scale_output = out\<rparr>))))))))
     | _ \<Rightarrow> Inl ValueError)"

fun infer_loop ::
  "module detect \<Rightarrow> tensor list \<Rightarrow> (real \<times> real) list \<Rightarrow> real list \<Rightarrow> nat \<Rightarrow> nat list
     \<Rightarrow> error + scale_locals list" where
  "infer_loop d x anchor_points stride_tensor start [] = Inr []"
| "infer_loop d x anchor_points stride_tensor start (i # is) =
     bind (infer_scale d x anchor_points stride_tensor start i) (\<lambda>loc.
     bind (infer_loop d x anchor_points stride_tensor (end_idx loc) is) (\<lambda>locs.
       Inr (loc # locs)))"

definition forward_eval_locals :: "module detect \<Rightarrow> tensor list \<Rightarrow> error + scale_locals list" where
  "forward_eval_locals d x =
     bind (getitem x 0) (\<lambda>x0.
     bind (generate_anchors x (stride d) (grid_cell_size d) (grid_cell_offset d))
       (\<lambda>(anchor_points, stride_tensor).
          infer_loop d x anchor_points stride_tensor 0 [0..<nat (nl d)]))"

definition forward_eval :: "module detect \<Rightarrow> tensor list \<Rightarrow> error + tensor list" where
  "forward_eval d x = bind (forward_eval_locals d x) (\<lambda>locs. Inr (map scale_output locs))"

subsection \<open>The forward pass on the caller's list\<close>

text \<open>
  The argument \<open>x\<close> is a reference to a list object of the caller. The store maps the
  address of a list object to its slots. The training branch writes to the slots of
  \<open>x\<close> and returns \<open>x\<close> itself; the inference branch returns a new list.
\<close>

type_synonym addr = nat
type_synonym store = "addr \<Rightarrow> tensor list"

datatype forward_result =
  TrainOut addr tensor tensor tensor
  | EvalOut "tensor list"

definition forward :: "module detect \<Rightarrow> store \<Rightarrow> addr \<Rightarrow> error + (store \<times> forward_result)" where
  "forward d s x =
     (if training d then
        bind (forward_train d (s x)) (\<lambda>(x', cls_scores, reg_distri, reg_lrtb).
          Inr (s(x := x'), TrainOut x cls_scores reg_distri reg_lrtb))
      else
        bind (forward_eval d (s x)) (\<lambda>outputs. Inr (s, EvalOut outputs)))"

section \<open>An example configuration\<close>

text \<open>
  Layers for the examples: one that returns its input, and a 1x1 convolution whose
  weights are zero, so that every output channel is constantly its bias (the state in
  which \<open>initialize_biases\<close> leaves a projection).
\<close>

definition example_param :: "real list \<Rightarrow> parameter" where
  "example_param vs = \<lparr>shape = [length vs], data = vs, requires_grad = True\<rparr>"

definition keep_layer :: module where
  "keep_layer = \<lparr>weight = example_param [], bias = example_param [], fwd = (\<lambda>w b t. Inr t)\<rparr>"

definition const_map :: "nat \<Rightarrow> real list \<Rightarrow> nat \<Rightarrow> nat \<Rightarrow> tensor" where
  "const_map n vs h w =
     \<lparr>shape = [n, length vs, h, w],
      data = concat (replicate n (concat (map (replicate (h * w)) vs)))\<rparr>"

definition bias_only :: "parameter \<Rightarrow> parameter \<Rightarrow> tensor \<Rightarrow> error + tensor" where
  "bias_only w b t =
     (case shape t of
        [n, c, h, wd] \<Rightarrow> Inr (const_map n (data b) h wd)
      | _ \<Rightarrow> Inl RuntimeError)"

definition bias_layer :: "real list \<Rightarrow> module" where
  "bias_layer vs =
     \<lparr>weight = example_param (replicate (length vs) 0), bias = example_param vs, fwd = bias_only\<rparr>"

definition example_scale :: "module list" where
  "example_scale =
     [keep_layer, keep_layer, keep_layer,
      bias_layer [0], bias_layer [0, 0, 0, 0, 0, 0, 0, 0], bias_layer [1, 2, 3, 4]]"

definition example_layers :: "module list" where
  "example_layers = example_scale @ example_scale @ example_scale"

definition example_head :: "module detect" where
  "example_head =
     \<lparr>training = True, nc = 1, no = 6, nl = 3,
      grid = replicate 3 \<lparr>shape = [1], data = [0]\<rparr>,
      prior_prob = 1 / 100, inplace = True, stride = [8, 16, 32], use_dfl = True,
      reg_max = 1,
      proj_conv = \<lparr>shape = [1, 2, 1, 1], data = [0, 0], requires_grad = True\<rparr>,
      proj = None, grid_cell_offset = 1 / 2, grid_cell_size = 5,
      stems = [keep_layer, keep_layer, keep_layer],
      cls_convs = [keep_layer, keep_layer, keep_layer],
      reg_convs = [keep_layer, keep_layer, keep_layer],
      cls_preds = [bias_layer [0], bias_layer [0], bias_layer [0]],
      reg_preds_dist = [bias_layer [0, 0, 0, 0, 0, 0, 0, 0], bias_layer [0, 0, 0, 0, 0, 0, 0, 0],
                        bias_layer [0, 0, 0, 0, 0, 0, 0, 0]],
      reg_preds = [bias_layer [1, 2, 3, 4], bias_layer [1, 2, 3, 4], bias_layer [1, 2, 3, 4]]\<rparr>"

text \<open>
  Feature maps of batch size \<open>b\<close> with one channel and the sizes 2x2, 1x2 and 1x1,
  and a head whose stems change their input.
\<close>

definition example_input :: "nat \<Rightarrow> tensor list" where
  "example_input b = [const_map b [0] 2 2, const_map b [0] 1 2, const_map b [0] 1 1]"

text \<open>Feature maps of the sizes 4x4, 2x2 and 1x1.\<close>

definition example_pyramid :: "nat \<Rightarrow> tensor list" where
  "example_pyramid b = [const_map b [0] 4 4, const_map b [0] 2 2, const_map b [0] 1 1]"

definition example_head7 :: "module detect" where
  "example_head7 = example_head\<lparr>stems := [bias_layer [7], bias_layer [7], bias_layer [7]]\<rparr>"

section \<open>Basic facts\<close>

lemma bind_Inr [simp]: "bind (Inr v) f = f v"
  by (simp add: bind_def)

lemma bind_Inl [simp]: "bind (Inl e) f = Inl e"
  by (simp add: bind_def)

lemma bind_eq_Inr: "bind m f = Inr r \<longleftrightarrow> (\<exists>v. m = Inr v \<and> f v = Inr r)"
  by (cases m) auto

lemma getitem_eq_Inr: "getitem xs i = Inr v \<longleftrightarrow> (i < length xs \<and> v = xs ! i)"
  by (auto simp: getitem_def)

lemma getitem_in [simp]: "i < length xs \<Longrightarrow> getitem xs i = Inr (xs ! i)"
  by (simp add: getitem_def)

lemma getitem_out [simp]: "\<not> i < length xs \<Longrightarrow> getitem xs i = Inl IndexError"
  by (simp add: getitem_def)

section \<open>Construction\<close>

lemma append_scale_ok:
  "i * 6 + 5 < length hl \<Longrightarrow>
   append_scale hl d i =
     Inr (d\<lparr>stems := stems d @ [hl ! (i * 6)],
            cls_convs := cls_convs d @ [hl ! (i * 6 + 1)],
            reg_convs := reg_convs d @ [hl ! (i * 6 + 2)],
            cls_preds := cls_preds d @ [hl ! (i * 6 + 3)],
            reg_preds_dist := reg_preds_dist d @ [hl ! (i * 6 + 4)],
            reg_preds := reg_preds d @ [hl ! (i * 6 + 5)]\<rparr>)"
  by (simp add: append_scale_def Let_def)

lemma append_scale_fail:
  "\<not> i * 6 + 5 < length hl \<Longrightarrow> append_scale hl d i = Inl IndexError"
  by (simp add: append_scale_def Let_def bind_def getitem_def)

lemma append_scales_ok:
  "\<forall>i \<in> set is. i * 6 + 5 < length hl \<Longrightarrow>
   append_scales hl d is =
     Inr (d\<lparr>stems := stems d @ map (\<lambda>i. hl ! (i * 6)) is,
            cls_convs := cls_convs d @ map (\<lambda>i. hl ! (i * 6 + 1)) is,
            reg_convs := reg_convs d @ map (\<lambda>i. hl ! (i * 6 + 2)) is,
            cls_preds := cls_preds d @ map (\<lambda>i. hl ! (i * 6 + 3)) is,
            reg_preds_dist := reg_preds_dist d @ map (\<lambda>i. hl ! (i * 6 + 4)) is,
            reg_preds := reg_preds d @ map (\<lambda>i. hl ! (i * 6 + 5)) is\<rparr>)"
proof (induction "is" arbitrary: d)
  case Nil
  show ?case by simp
next
  case (Cons i "is")
  from Cons.prems have i: "i * 6 + 5 < length hl" and rest: "\<forall>j \<in> set is. j * 6 + 5 < length hl"
    by simp_all
  show ?case
    by (simp add: append_scale_ok [OF i] Cons.IH [OF rest])
qed

lemma append_scales_fail:
  "\<exists>i \<in> set is. \<not> i * 6 + 5 < length hl \<Longrightarrow> append_scales hl d is = Inl IndexError"
proof (induction "is" arbitrary: d)
  case Nil
  then show ?case by simp
next
  case (Cons i "is")
  show ?case
  proof (cases "i * 6 + 5 < length hl")
    case True
    with Cons.prems have "\<exists>j \<in> set is. \<not> j * 6 + 5 < length hl" by auto
    then show ?thesis by (simp add: append_scale_ok [OF True] Cons.IH)
  next
    case False
    then show ?thesis by (simp add: append_scale_fail)
  qed
qed

lemma all_slots_iff:
  "(\<forall>i \<in> set [0..<nat n]. i * 6 + 5 < length (hl :: 'a list)) \<longleftrightarrow> 6 * n \<le> int (length hl)"
proof
  assume a: "\<forall>i \<in> set [0..<nat n]. i * 6 + 5 < length hl"
  show "6 * n \<le> int (length hl)"
  proof (cases "n \<le> 0")
    case True
    then show ?thesis by simp
  next
    case False
    then have "nat n - 1 \<in> set [0..<nat n]" by simp
    with a have "(nat n - 1) * 6 + 5 < length hl" by blast
    with False show ?thesis by linarith
  qed
next
  assume "6 * n \<le> int (length hl)"
  then show "\<forall>i \<in> set [0..<nat n]. i * 6 + 5 < length hl" by auto
qed

lemma Detect_init_ok:
  assumes "6 * n \<le> int (length hl)"
  shows "\<exists>d. Detect_init c n ip (Some hl) dfl rm w0 = Inr d
     \<and> stride d = [8, 16, 32] \<and> nl d = n \<and> nc d = c \<and> prior_prob d = 1 / 100 \<and> reg_max d = rm
     \<and> training d
     \<and> stems d = map (\<lambda>i. hl ! (i * 6)) [0..<nat n]
     \<and> cls_convs d = map (\<lambda>i. hl ! (i * 6 + 1)) [0..<nat n]
     \<and> reg_convs d = map (\<lambda>i. hl ! (i * 6 + 2)) [0..<nat n]
     \<and> cls_preds d = map (\<lambda>i. hl ! (i * 6 + 3)) [0..<nat n]
     \<and> reg_preds_dist d = map (\<lambda>i. hl ! (i * 6 + 4)) [0..<nat n]
     \<and> reg_preds d = map (\<lambda>i. hl ! (i * 6 + 5)) [0..<nat n]"
proof -
  from assms have "\<forall>i \<in> set [0..<nat n]. i * 6 + 5 < length hl"
    by (simp only: all_slots_iff)
  then show ?thesis
    unfolding Detect_init_def by (simp add: append_scales_ok)
qed

lemma Detect_init_short:
  assumes "int (length hl) < 6 * n"
  shows "Detect_init c n ip (Some hl) dfl rm w0 = Inl IndexError"
proof -
  from assms have "\<not> (\<forall>i \<in> set [0..<nat n]. i * 6 + 5 < length hl)"
    unfolding all_slots_iff by linarith
  then have "\<exists>i \<in> set [0..<nat n]. \<not> i * 6 + 5 < length hl" by blast
  then show ?thesis
    unfolding Detect_init_def by (simp add: append_scales_fail)
qed

lemma Detect_init_None: "Detect_init c n ip None dfl rm w0 = Inl AssertionError"
  by (simp add: Detect_init_def)

lemma Detect_init_prior:
  assumes "Detect_init c n ip hlo dfl rm w0 = Inr d"
  shows "prior_prob d = 1 / 100 \<and> reg_max d = rm"
proof (cases hlo)
  case None
  with assms show ?thesis by (simp add: Detect_init_None)
next
  case (Some hl)
  show ?thesis
  proof (cases "6 * n \<le> int (length hl)")
    case True
    from Detect_init_ok [OF True, of c ip dfl rm w0] assms Some show ?thesis by auto
  next
    case False
    then have "int (length hl) < 6 * n" by simp
    from Detect_init_short [OF this, of c ip dfl rm w0] assms Some show ?thesis by simp
  qed
qed

text \<open>
  C6. The claim is that construction fails whenever the number of strides differs from
  \<open>num_layers\<close>. The constructor takes no stride argument and makes no such check:
  with \<open>num_layers = 2\<close> and twelve head layers it succeeds, and the head has the
  three strides 8, 16, 32.
\<close>

theorem Detect_init_stride_mismatch_accepted:
  "map_sum id stride
     (Detect_init 80 2 True (Some [0, 1, 2, 3, 4, 5, 6, 7, 8, 9, 10, 11 :: nat]) True 16 (replicate 17 0))
     = Inr [8, 16, 32]
   \<and> map_sum id nl
     (Detect_init 80 2 True (Some [0, 1, 2, 3, 4, 5, 6, 7, 8, 9, 10, 11 :: nat]) True 16 (replicate 17 0))
     = Inr 2"
  by (simp add: Detect_init_def append_scale_def Let_def upt_rec)

text \<open>
  C6, as amended. Whatever \<open>num_layers\<close> is, construction with at least
  \<open>6 * num_layers\<close> head layers succeeds, and the head's stride list is the fixed
  list 8, 16, 32: the number of strides is not compared with \<open>num_layers\<close>.
\<close>

theorem Detect_init_stride_fixed:
  "6 * n \<le> int (length hl) \<Longrightarrow>
   \<exists>d. Detect_init c n ip (Some hl) dfl rm w0 = Inr d \<and> stride d = [8, 16, 32] \<and> nl d = n"
  using Detect_init_ok [of n hl c ip dfl rm w0] by blast

theorem Detect_init_stride_fixed_witness:
  "6 * 2 \<le> int (length [0, 1, 2, 3, 4, 5, 6, 7, 8, 9, 10, 11 :: nat])
   \<and> (\<exists>d. Detect_init 80 2 True (Some [0, 1, 2, 3, 4, 5, 6, 7, 8, 9, 10, 11 :: nat]) True 16 (replicate 17 0) = Inr d
        \<and> stride d = [8, 16, 32] \<and> nl d = 2)"
proof -
  have h: "6 * 2 \<le> int (length [0, 1, 2, 3, 4, 5, 6, 7, 8, 9, 10, 11 :: nat])" by simp
  from Detect_init_stride_fixed [OF h] h show ?thesis by blast
qed

text \<open>
  C7. The claim is that construction fails unless \<open>head_layers\<close> has exactly
  \<open>6 * num_layers\<close> entries. With \<open>num_layers = 1\<close> and twelve entries it
  succeeds; the surplus entries are not looked at.
\<close>

theorem Detect_init_surplus_layers_accepted:
  "map_sum id stems
     (Detect_init 80 1 True (Some [0, 1, 2, 3, 4, 5, 6, 7, 8, 9, 10, 11 :: nat]) True 16 (replicate 17 0))
     = Inr [0]"
  by (simp add: Detect_init_def append_scale_def Let_def upt_rec)

text \<open>
  C7, as amended. Construction fails when \<open>head_layers\<close> is missing or has fewer
  than \<open>6 * num_layers\<close> entries. With at least \<open>6 * num_layers\<close> entries it
  succeeds, and scale \<open>i\<close> gets the entries \<open>6 * i\<close> to \<open>6 * i + 5\<close> as its stem,
  classification feature layer, regression feature layer, classification projection,
  distribution projection and direct projection, in that order.
\<close>

theorem Detect_init_head_layers:
  "Detect_init c n ip None dfl rm w0 = Inl AssertionError
   \<and> (int (length hl) < 6 * n \<longrightarrow> Detect_init c n ip (Some hl) dfl rm w0 = Inl IndexError)
   \<and> (6 * n \<le> int (length hl) \<longrightarrow>
        (\<exists>d. Detect_init c n ip (Some hl) dfl rm w0 = Inr d
           \<and> stems d = map (\<lambda>i. hl ! (i * 6)) [0..<nat n]
           \<and> cls_convs d = map (\<lambda>i. hl ! (i * 6 + 1)) [0..<nat n]
           \<and> reg_convs d = map (\<lambda>i. hl ! (i * 6 + 2)) [0..<nat n]
           \<and> cls_preds d = map (\<lambda>i. hl ! (i * 6 + 3)) [0..<nat n]
           \<and> reg_preds_dist d = map (\<lambda>i. hl ! (i * 6 + 4)) [0..<nat n]
           \<and> reg_preds d = map (\<lambda>i. hl ! (i * 6 + 5)) [0..<nat n]))"
proof (intro conjI impI)
  show "Detect_init c n ip None dfl rm w0 = Inl AssertionError"
    by (rule Detect_init_None)
next
  assume "int (length hl) < 6 * n"
  then show "Detect_init c n ip (Some hl) dfl rm w0 = Inl IndexError"
    by (rule Detect_init_short)
next
  assume "6 * n \<le> int (length hl)"
  from Detect_init_ok [OF this, of c ip dfl rm w0]
  show "\<exists>d. Detect_init c n ip (Some hl) dfl rm w0 = Inr d
           \<and> stems d = map (\<lambda>i. hl ! (i * 6)) [0..<nat n]
           \<and> cls_convs d = map (\<lambda>i. hl ! (i * 6 + 1)) [0..<nat n]
           \<and> reg_convs d = map (\<lambda>i. hl ! (i * 6 + 2)) [0..<nat n]
           \<and> cls_preds d = map (\<lambda>i. hl ! (i * 6 + 3)) [0..<nat n]
           \<and> reg_preds_dist d = map (\<lambda>i. hl ! (i * 6 + 4)) [0..<nat n]
           \<and> reg_preds d = map (\<lambda>i. hl ! (i * 6 + 5)) [0..<nat n]"
    by blast
qed

theorem Detect_init_head_layers_witness:
  "Detect_init 80 2 True (Some [0, 1, 2, 3, 4, 5, 6, 7, 8, 9, 10 :: nat]) True 16 [] = Inl IndexError
   \<and> (\<exists>d. Detect_init 80 2 True (Some [0, 1, 2, 3, 4, 5, 6, 7, 8, 9, 10, 11, 12 :: nat]) True 16 [] = Inr d
        \<and> stems d = [0, 6] \<and> cls_convs d = [1, 7] \<and> reg_convs d = [2, 8]
        \<and> cls_preds d = [3, 9] \<and> reg_preds_dist d = [4, 10] \<and> reg_preds d = [5, 11])"
proof -
  have short: "int (length [0, 1, 2, 3, 4, 5, 6, 7, 8, 9, 10 :: nat]) < 6 * 2" by simp
  have enough: "6 * 2 \<le> int (length [0, 1, 2, 3, 4, 5, 6, 7, 8, 9, 10, 11, 12 :: nat])" by simp
  have two: "[0..<nat 2] = [0, 1]" by (simp add: upt_rec)
  from Detect_init_head_layers [of 80 2 True True 16 "[]" "[0, 1, 2, 3, 4, 5, 6, 7, 8, 9, 10 :: nat]"] short
  have a: "Detect_init 80 2 True (Some [0, 1, 2, 3, 4, 5, 6, 7, 8, 9, 10 :: nat]) True 16 [] = Inl IndexError"
    by blast
  from Detect_init_head_layers [of 80 2 True True 16 "[]" "[0, 1, 2, 3, 4, 5, 6, 7, 8, 9, 10, 11, 12 :: nat]"] enough
  have b: "\<exists>d. Detect_init 80 2 True (Some [0, 1, 2, 3, 4, 5, 6, 7, 8, 9, 10, 11, 12 :: nat]) True 16 [] = Inr d
        \<and> stems d = map (\<lambda>i. [0, 1, 2, 3, 4, 5, 6, 7, 8, 9, 10, 11, 12 :: nat] ! (i * 6)) [0..<nat 2]
        \<and> cls_convs d = map (\<lambda>i. [0, 1, 2, 3, 4, 5, 6, 7, 8, 9, 10, 11, 12 :: nat] ! (i * 6 + 1)) [0..<nat 2]
        \<and> reg_convs d = map (\<lambda>i. [0, 1, 2, 3, 4, 5, 6, 7, 8, 9, 10, 11, 12 :: nat] ! (i * 6 + 2)) [0..<nat 2]
        \<and> cls_preds d = map (\<lambda>i. [0, 1, 2, 3, 4, 5, 6, 7, 8, 9, 10, 11, 12 :: nat] ! (i * 6 + 3)) [0..<nat 2]
        \<and> reg_preds_dist d = map (\<lambda>i. [0, 1, 2, 3, 4, 5, 6, 7, 8, 9, 10, 11, 12 :: nat] ! (i * 6 + 4)) [0..<nat 2]
        \<and> reg_preds d = map (\<lambda>i. [0, 1, 2, 3, 4, 5, 6, 7, 8, 9, 10, 11, 12 :: nat] ! (i * 6 + 5)) [0..<nat 2]"
    by blast
  from b have b': "\<exists>d. Detect_init 80 2 True (Some [0, 1, 2, 3, 4, 5, 6, 7, 8, 9, 10, 11, 12 :: nat]) True 16 [] = Inr d
        \<and> stems d = [0, 6] \<and> cls_convs d = [1, 7] \<and> reg_convs d = [2, 8]
        \<and> cls_preds d = [3, 9] \<and> reg_preds_dist d = [4, 10] \<and> reg_preds d = [5, 11]"
    unfolding two by simp
  from a b' show ?thesis by blast
qed

section \<open>The layers built for the head\<close>

text \<open>
  C8. The claim gives the distribution projection \<open>4 * (reg_max + 1)\<close> output
  channels for every \<open>num_anchors\<close>. With \<open>num_anchors = 2\<close>, \<open>num_classes = 80\<close>
  and \<open>reg_max = 16\<close> the builder gives it \<open>4 * (16 + 2) = 72\<close> channels, not
  \<open>4 * (16 + 1) = 68\<close>; the classification and direct projections have
  \<open>80 * 2 = 160\<close> and \<open>4 * 2 = 8\<close>.
\<close>

theorem build_effidehead_layer_two_anchors:
  "map_sum id (map out_channels) (build_effidehead_layer [0, 1, 2, 3, 4, 5, 6, 7, 8, 9, 10] 2 80 16)
     = Inr [6, 6, 6, 160, 72, 8, 8, 8, 8, 160, 72, 8, 10, 10, 10, 160, 72, 8]"
  by (simp add: build_effidehead_layer_def scale_layers_def)

section \<open>Initialisation of the projections\<close>

lemma linspace_ramp: "linspace 0 (real n) (Suc n) = map real [0..<Suc n]"
proof (cases "n = 0")
  case True
  then show ?thesis by (simp add: linspace_def)
next
  case False
  then show ?thesis by (simp add: linspace_def)
qed

lemma init_conv_bias: "data (bias (init_conv v m)) = replicate (numel (bias m)) v"
  by (simp add: init_conv_def Let_def fill_def view_flat_def numel_def)

lemma init_conv_weight: "data (weight (init_conv v m)) = replicate (numel (weight m)) 0"
  by (simp add: init_conv_def Let_def fill_def view_flat_def numel_def)

lemma init_cls:
  "cls_preds (initialize_biases d)
     = map (init_conv (- ln ((1 - prior_prob d) / prior_prob d))) (cls_preds d)"
  by (simp add: initialize_biases_def Let_def)

lemma init_dist: "reg_preds_dist (initialize_biases d) = map (init_conv 1) (reg_preds_dist d)"
  by (simp add: initialize_biases_def Let_def)

lemma init_reg: "reg_preds (initialize_biases d) = map (init_conv 1) (reg_preds d)"
  by (simp add: initialize_biases_def Let_def)

lemma init_proj:
  "proj (initialize_biases d)
     = Some \<lparr>shape = [reg_max d + 1], data = map real [0..<reg_max d + 1], requires_grad = False\<rparr>"
  by (simp add: initialize_biases_def Let_def linspace_ramp del: upt_Suc)

lemma init_proj_conv:
  "proj_conv (initialize_biases d)
     = \<lparr>shape = [1, reg_max d + 1, 1, 1], data = map real [0..<reg_max d + 1], requires_grad = False\<rparr>"
  by (simp add: initialize_biases_def Let_def linspace_ramp del: upt_Suc)

text \<open>
  C9. On a constructed head (so \<open>prior_prob = 0.01\<close>) one call of
  \<open>initialize_biases\<close> fills the bias of every classification projection with
  \<open>- log ((1 - p) / p)\<close> for \<open>p = 0.01\<close>, the bias of every distribution and direct
  regression projection with 1, and the weight of every projection with 0, each
  keeping its number of entries; \<open>proj\<close> and the weight of \<open>proj_conv\<close> become the
  ramp \<open>0, 1, ..., reg_max\<close> of \<open>reg_max + 1\<close> values, not trainable.
\<close>

theorem initialize_biases_effect:
  assumes "Detect_init c n ip hlo dfl rm w0 = Inr d"
  shows "(\<forall>i < length (cls_preds d).
            data (bias (cls_preds (initialize_biases d) ! i))
              = replicate (numel (bias (cls_preds d ! i))) (- ln ((1 - 1 / 100) / (1 / 100)))
            \<and> data (weight (cls_preds (initialize_biases d) ! i))
              = replicate (numel (weight (cls_preds d ! i))) 0)
       \<and> (\<forall>i < length (reg_preds_dist d).
            data (bias (reg_preds_dist (initialize_biases d) ! i))
              = replicate (numel (bias (reg_preds_dist d ! i))) 1
            \<and> data (weight (reg_preds_dist (initialize_biases d) ! i))
              = replicate (numel (weight (reg_preds_dist d ! i))) 0)
       \<and> (\<forall>i < length (reg_preds d).
            data (bias (reg_preds (initialize_biases d) ! i))
              = replicate (numel (bias (reg_preds d ! i))) 1
            \<and> data (weight (reg_preds (initialize_biases d) ! i))
              = replicate (numel (weight (reg_preds d ! i))) 0)
       \<and> length (cls_preds (initialize_biases d)) = length (cls_preds d)
       \<and> length (reg_preds_dist (initialize_biases d)) = length (reg_preds_dist d)
       \<and> length (reg_preds (initialize_biases d)) = length (reg_preds d)
       \<and> proj (initialize_biases d)
           = Some \<lparr>shape = [rm + 1], data = map real [0..<rm + 1], requires_grad = False\<rparr>
       \<and> proj_conv (initialize_biases d)
           = \<lparr>shape = [1, rm + 1, 1, 1], data = map real [0..<rm + 1], requires_grad = False\<rparr>"
proof -
  from Detect_init_prior [OF assms] have p: "prior_prob d = 1 / 100" and r: "reg_max d = rm"
    by simp_all
  show ?thesis
    unfolding init_proj init_proj_conv r
    by (simp add: init_cls init_dist init_reg init_conv_bias init_conv_weight p del: upt_Suc)
qed

lemma example_init:
  "Detect_init 1 3 True (Some example_layers) True 1 [0, 0] = Inr example_head"
  by (simp add: Detect_init_def append_scale_def Let_def upt_rec example_layers_def
      example_scale_def example_head_def)

theorem initialize_biases_effect_witness:
  "data (bias (cls_preds (initialize_biases example_head) ! 0)) = [- ln 99]
   \<and> data (bias (reg_preds_dist (initialize_biases example_head) ! 0)) = [1, 1, 1, 1, 1, 1, 1, 1]
   \<and> data (weight (reg_preds (initialize_biases example_head) ! 0)) = [0, 0, 0, 0]
   \<and> data (proj_conv (initialize_biases example_head)) = [0, 1]"
proof -
  have l: "0 < length (cls_preds example_head)" "0 < length (reg_preds_dist example_head)"
     "0 < length (reg_preds example_head)"
    by (simp_all add: example_head_def)
  have n: "numel (bias (cls_preds example_head ! 0)) = 1"
     "numel (bias (reg_preds_dist example_head ! 0)) = 8"
     "numel (weight (reg_preds example_head ! 0)) = 4"
    by (simp_all add: example_head_def bias_layer_def example_param_def numel_def)
  have u: "[0..<Suc (Suc 0)] = [0, 1]" by (simp add: upt_rec)
  from initialize_biases_effect [OF example_init] l n show ?thesis
    by (simp add: numeral_eq_Suc u)
qed

section \<open>Facts about the tensor operations\<close>

lemma length_concat_map_upt:
  "(\<And>i. i < n \<Longrightarrow> length (f i) = m) \<Longrightarrow> length (concat (map f [0..<n])) = n * m"
  by (induction n) auto

lemma nth_concat_map_upt:
  assumes "\<And>i. i < n \<Longrightarrow> length (f i) = m" and "i < n" and "j < m"
  shows "concat (map f [0..<n]) ! (i * m + j) = f i ! j"
  using assms
proof (induction n)
  case 0
  then show ?case by simp
next
  case (Suc n)
  have len: "length (concat (map f [0..<n])) = n * m"
    using Suc.prems(1) by (intro length_concat_map_upt) simp
  show ?case
  proof (cases "i < n")
    case True
    have "i * m + j < n * m"
    proof -
      have "i * m + j < i * m + m" using Suc.prems(3) by simp
      also have "\<dots> = Suc i * m" by simp
      also have "\<dots> \<le> n * m" using True by (intro mult_le_mono1) simp
      finally show ?thesis .
    qed
    with Suc True len show ?thesis by (simp add: nth_append)
  next
    case False
    with Suc.prems have "i = n" by simp
    with len Suc.prems(3) show ?thesis by (simp add: nth_append)
  qed
qed

lemma nth_concat_offset:
  "i < length xss \<Longrightarrow> j < length (xss ! i) \<Longrightarrow>
   concat xss ! (sum_list (map length (take i xss)) + j) = xss ! i ! j"
proof (induction xss arbitrary: i)
  case Nil then show ?case by simp
next
  case (Cons a xss)
  show ?case
  proof (cases i)
    case 0 with Cons show ?thesis by (simp add: nth_append)
  next
    case (Suc k)
    with Cons have "concat xss ! (sum_list (map length (take k xss)) + j) = xss ! k ! j" by simp
    with Suc Cons.prems show ?thesis by (simp add: nth_append add.assoc)
  qed
qed

lemma index_bound: "(i::nat) < n \<Longrightarrow> j < m \<Longrightarrow> i * m + j < n * m"
proof -
  assume a: "i < n" "j < m"
  have "i * m + j < i * m + m" using a by simp
  also have "\<dots> = Suc i * m" by simp
  also have "\<dots> \<le> n * m" using a by (intro mult_le_mono1) simp
  finally show ?thesis .
qed

lemma sigmoid_range: "0 < sigmoid v \<and> sigmoid v < 1"
  by (simp add: sigmoid_def add_pos_pos)

lemma permute021_shape3:
  "shape t = [b, c, l] \<Longrightarrow>
   permute021 t = Inr \<lparr>shape = [b, l, c],
       data = concat (map (\<lambda>bi. concat (map (\<lambda>n.
                map (\<lambda>k. data t ! ((bi * c + k) * l + n)) [0..<c]) [0..<l])) [0..<b])\<rparr>"
  by (simp add: permute021_def)

lemma permute021_Inr:
  assumes "permute021 t = Inr t'"
  shows "\<exists>b c l. shape t = [b, c, l] \<and> shape t' = [b, l, c] \<and> length (data t') = b * l * c
     \<and> (\<forall>bi < b. \<forall>n < l. \<forall>k < c. data t' ! ((bi * l + n) * c + k) = data t ! ((bi * c + k) * l + n))"
proof -
  from assms obtain b c l where s: "shape t = [b, c, l]"
    by (auto simp: permute021_def split: list.splits)
  let ?row = "\<lambda>bi n. map (\<lambda>k. data t ! ((bi * c + k) * l + n)) [0..<c]"
  let ?img = "\<lambda>bi. concat (map (?row bi) [0..<l])"
  from assms s have t': "t' = \<lparr>shape = [b, l, c], data = concat (map ?img [0..<b])\<rparr>"
    by (simp add: permute021_shape3)
  have img_len: "\<And>bi. length (?img bi) = l * c"
    by (rule length_concat_map_upt) simp
  have len: "length (data t') = b * l * c"
    unfolding t' using length_concat_map_upt [of b ?img "l * c"] img_len by (simp add: mult.assoc)
  have nth: "data t' ! ((bi * l + n) * c + k) = data t ! ((bi * c + k) * l + n)"
    if "bi < b" "n < l" "k < c" for bi n k
  proof -
    have nk: "n * c + k < l * c" using that by (intro index_bound)
    have idx: "(bi * l + n) * c + k = bi * (l * c) + (n * c + k)" by (simp add: algebra_simps)
    have "data t' ! ((bi * l + n) * c + k) = data t' ! (bi * (l * c) + (n * c + k))"
      by (simp only: idx)
    also have "\<dots> = concat (map ?img [0..<b]) ! (bi * (l * c) + (n * c + k))"
      by (simp only: t' tensor.select_convs)
    also have "\<dots> = ?img bi ! (n * c + k)"
      using img_len that(1) nk by (intro nth_concat_map_upt)
    also have "\<dots> = ?row bi n ! k"
      using that by (intro nth_concat_map_upt) simp_all
    also have "\<dots> = data t ! ((bi * c + k) * l + n)" using that by simp
    finally show ?thesis .
  qed
  from s t' len nth show ?thesis by auto
qed

lemma permute0231_shape4:
  "shape t = [b, c, h, w] \<Longrightarrow>
   permute0231 t = Inr \<lparr>shape = [b, h, w, c],
       data = concat (map (\<lambda>bi. concat (map (\<lambda>r. concat (map (\<lambda>col.
                map (\<lambda>k. data t ! (((bi * c + k) * h + r) * w + col)) [0..<c])
                [0..<w])) [0..<h])) [0..<b])\<rparr>"
  by (simp add: permute0231_def)

lemma permute0231_Inr:
  assumes "permute0231 t = Inr t'"
  shows "\<exists>b c h w. shape t = [b, c, h, w] \<and> shape t' = [b, h, w, c]
     \<and> length (data t') = b * h * w * c
     \<and> (\<forall>bi < b. \<forall>r < h. \<forall>col < w. \<forall>k < c.
          data t' ! ((((bi * h + r) * w) + col) * c + k) = data t ! (((bi * c + k) * h + r) * w + col))"
proof -
  from assms obtain b c h w where s: "shape t = [b, c, h, w]"
    by (auto simp: permute0231_def split: list.splits)
  let ?px = "\<lambda>bi r col. map (\<lambda>k. data t ! (((bi * c + k) * h + r) * w + col)) [0..<c]"
  let ?row = "\<lambda>bi r. concat (map (?px bi r) [0..<w])"
  let ?img = "\<lambda>bi. concat (map (?row bi) [0..<h])"
  from assms s have t': "t' = \<lparr>shape = [b, h, w, c], data = concat (map ?img [0..<b])\<rparr>"
    by (simp add: permute0231_shape4)
  have row_len: "\<And>bi r. length (?row bi r) = w * c"
    by (rule length_concat_map_upt) simp
  have img_len: "\<And>bi. length (?img bi) = h * (w * c)"
    by (rule length_concat_map_upt) (rule row_len)
  have len: "length (data t') = b * h * w * c"
    unfolding t' using length_concat_map_upt [of b ?img "h * (w * c)"] img_len by (simp add: mult.assoc)
  have nth: "data t' ! ((((bi * h + r) * w) + col) * c + k) = data t ! (((bi * c + k) * h + r) * w + col)"
    if "bi < b" "r < h" "col < w" "k < c" for bi r col k
  proof -
    have ck: "col * c + k < w * c" using that by (intro index_bound)
    have rk: "r * (w * c) + (col * c + k) < h * (w * c)" using that ck by (intro index_bound)
    have idx: "(((bi * h + r) * w) + col) * c + k = bi * (h * (w * c)) + (r * (w * c) + (col * c + k))"
      by (simp add: algebra_simps)
    have "data t' ! ((((bi * h + r) * w) + col) * c + k)
        = data t' ! (bi * (h * (w * c)) + (r * (w * c) + (col * c + k)))"
      by (simp only: idx)
    also have "\<dots> = concat (map ?img [0..<b]) ! (bi * (h * (w * c)) + (r * (w * c) + (col * c + k)))"
      by (simp only: t' tensor.select_convs)
    also have "\<dots> = ?img bi ! (r * (w * c) + (col * c + k))"
      using img_len that(1) rk by (intro nth_concat_map_upt)
    also have "\<dots> = ?row bi r ! (col * c + k)"
      using row_len that(2) ck by (intro nth_concat_map_upt)
    also have "\<dots> = ?px bi r col ! k"
      using that by (intro nth_concat_map_upt) simp_all
    also have "\<dots> = data t ! (((bi * c + k) * h + r) * w + col)" using that by simp
    finally show ?thesis .
  qed
  from s t' len nth show ?thesis by auto
qed

lemma flatperm_4d:
  assumes "shape t = [b, c, h, w]"
  shows "\<exists>t'. flatperm t = Inr t' \<and> shape t' = [b, h * w, c] \<and> length (data t') = b * (h * w) * c
     \<and> (\<forall>bi < b. \<forall>n < h * w. \<forall>k < c. data t' ! ((bi * (h * w) + n) * c + k) = data t ! ((bi * c + k) * (h * w) + n))"
proof -
  let ?f = "t\<lparr>shape := [b, c, h * w]\<rparr>"
  have f: "flatten2 t = Inr ?f" using assms by (simp add: flatten2_def)
  have "shape ?f = [b, c, h * w]" by simp
  from permute021_shape3 [OF this] obtain t' where t': "permute021 ?f = Inr t'" by blast
  from permute021_Inr [OF t'] f t' show ?thesis
    by (auto simp: flatperm_def)
qed


lemma call_Inr: "call m x = Inr y \<Longrightarrow> wf_tensor y"
  by (auto simp: call_def bind_eq_Inr split: if_splits)

lemma train_branch_Inr:
  assumes "train_branch d xi i = Inr (f, co, ro, rl)"
  shows "i < length (stems d) \<and> call (stems d ! i) xi = Inr f
     \<and> wf_tensor f \<and> wf_tensor co \<and> wf_tensor ro \<and> wf_tensor rl"
  using assms unfolding train_branch_def
  by (auto simp: bind_eq_Inr getitem_eq_Inr dest: call_Inr)

lemma wf_torch_sigmoid: "wf_tensor (torch_sigmoid t) = wf_tensor t"
  by (simp add: torch_sigmoid_def wf_tensor_def numel_def)

lemma shape_torch_sigmoid [simp]: "shape (torch_sigmoid t) = shape t"
  by (simp add: torch_sigmoid_def)

lemma data_torch_sigmoid [simp]: "data (torch_sigmoid t) = map sigmoid (data t)"
  by (simp add: torch_sigmoid_def)

lemma permute021_set:
  assumes "permute021 t = Inr t'" and "wf_tensor t"
  shows "set (data t') \<subseteq> set (data t)"
proof -
  from assms(1) obtain b c l where s: "shape t = [b, c, l]"
    by (auto simp: permute021_def split: list.splits)
  from assms(2) s have len: "length (data t) = b * c * l"
    by (simp add: wf_tensor_def numel_def)
  have "data t ! ((bi * c + k) * l + n) \<in> set (data t)" if "bi < b" "k < c" "n < l" for bi k n
  proof -
    have "bi * c + k < b * c" using that by (intro index_bound)
    then have "(bi * c + k) * l + n < (b * c) * l" using that by (intro index_bound)
    with len show ?thesis by simp
  qed
  with assms(1) s show ?thesis
    by (auto simp: permute021_shape3)
qed

lemma permute0231_set:
  assumes "permute0231 t = Inr t'" and "wf_tensor t"
  shows "set (data t') \<subseteq> set (data t)"
proof -
  from assms(1) obtain b c h w where s: "shape t = [b, c, h, w]"
    by (auto simp: permute0231_def split: list.splits)
  from assms(2) s have len: "length (data t) = b * c * h * w"
    by (simp add: wf_tensor_def numel_def mult.assoc)
  have "data t ! (((bi * c + k) * h + r) * w + col) \<in> set (data t)"
    if "bi < b" "k < c" "r < h" "col < w" for bi k r col
  proof -
    have "bi * c + k < b * c" using that by (intro index_bound)
    then have "(bi * c + k) * h + r < (b * c) * h" using that by (intro index_bound)
    then have "((bi * c + k) * h + r) * w + col < ((b * c) * h) * w" using that by (intro index_bound)
    with len show ?thesis by simp
  qed
  with assms(1) s show ?thesis
    by (auto simp: permute0231_shape4)
qed

lemma flatten2_Inr:
  assumes "flatten2 t = Inr t'"
  shows "data t' = data t \<and> numel t' = numel t"
proof -
  have "prod_list (take 2 (shape t)) * prod_list (drop 2 (shape t)) = prod_list (shape t)"
    by (simp only: prod_list.append [symmetric] append_take_drop_id)
  with assms show ?thesis
    by (auto simp: flatten2_def numel_def split: if_splits)
qed

lemma flatperm_set:
  assumes "flatperm t = Inr t'" and "wf_tensor t"
  shows "set (data t') \<subseteq> set (data t)"
proof -
  from assms(1) obtain u where u: "flatten2 t = Inr u" and p: "permute021 u = Inr t'"
    by (auto simp: flatperm_def bind_eq_Inr)
  from flatten2_Inr [OF u] assms(2) have "wf_tensor u" "data u = data t"
    by (simp_all add: wf_tensor_def)
  with permute021_set [OF p] show ?thesis by simp
qed

lemma cat_data_subset:
  assumes "cat ts a = Inr r"
  shows "set (data r) \<subseteq> (\<Union>t \<in> set ts. set (data t))"
proof -
  have c: "set (chunk a t j) \<subseteq> set (data t)" for t j
    unfolding chunk_def by (meson set_take_subset set_drop_subset subset_trans)
  from assms have "data r = concat (map (\<lambda>j. concat (map (\<lambda>t. chunk a t j) ts))
       [0..<prod_list (take a (shape (hd ts)))])"
    by (auto simp: cat_def split: list.splits if_splits)
  then show ?thesis using c by auto
qed

lemma cat1:
  assumes ne: "ts \<noteq> []" and len: "length ls = length ts"
    and sh: "\<And>i. i < length ts \<Longrightarrow> shape (ts ! i) = [b, ls ! i, C] \<and> length (data (ts ! i)) = b * (ls ! i) * C"
  shows "\<exists>r. cat ts 1 = Inr r \<and> shape r = [b, sum_list ls, C]
     \<and> (\<forall>i < length ts. \<forall>j < b. \<forall>p < ls ! i. \<forall>k < C.
          data r ! ((j * sum_list ls + sum_list (take i ls) + p) * C + k)
            = data (ts ! i) ! ((j * (ls ! i) + p) * C + k))"
proof -
  define L where "L = sum_list ls"
  define row where "row = (\<lambda>j. concat (map (\<lambda>t. chunk 1 t j) ts))"
  from ne obtain t0 rest where ts: "ts = t0 # rest" by (cases ts) auto
  have s0: "shape t0 = [b, ls ! 0, C]" using sh [of 0] ts by simp
  have cond: "\<forall>t \<in> set ts. length (shape t) = length (shape t0) \<and> (shape t)[1 := 0] = (shape t0)[1 := 0]"
  proof
    fix t assume "t \<in> set ts"
    then obtain i where "i < length ts" "t = ts ! i" by (auto simp: in_set_conv_nth)
    with sh [of i] s0 show "length (shape t) = length (shape t0) \<and> (shape t)[1 := 0] = (shape t0)[1 := 0]"
      by simp
  qed
  have ls_eq: "map (\<lambda>t. shape t ! 1) ts = ls"
    using len sh by (intro nth_equalityI) simp_all
  have l0: "1 < length (shape t0)" by (simp add: s0)
  have upd: "(shape t0)[1 := X] = [b, X, C]" for X by (simp add: s0)
  have tk: "prod_list (take 1 (shape t0)) = b" by (simp add: s0)
  have "cat ts 1 = Inr \<lparr>shape = (shape t0)[1 := sum_list (map (\<lambda>t. shape t ! 1) ts)],
        data = concat (map (\<lambda>j. concat (map (\<lambda>t. chunk 1 t j) ts))
                 [0..<prod_list (take 1 (shape t0))])\<rparr>"
    using cond l0 by (simp add: cat_def ts)
  then have r: "cat ts 1 = Inr \<lparr>shape = [b, L, C], data = concat (map row [0..<b])\<rparr>"
    by (simp only: ls_eq upd tk row_def L_def)
  have dlen: "length (data (ts ! i)) = b * (ls ! i * C)" if "i < length ts" for i
    using sh [OF that] by (simp add: mult.assoc)
  have chunk_len: "length (chunk 1 (ts ! i) j) = ls ! i * C" if "i < length ts" "j < b" for i j
  proof -
    have "Suc j * (ls ! i * C) \<le> b * (ls ! i * C)" using that by (intro mult_le_mono1) simp
    then have "ls ! i * C \<le> b * (ls ! i * C) - j * (ls ! i * C)" by simp
    with sh [OF that(1)] dlen [OF that(1)] show ?thesis by (simp add: chunk_def)
  qed
  have chunk_nth: "chunk 1 (ts ! i) j ! q = data (ts ! i) ! (j * (ls ! i * C) + q)"
    if "i < length ts" "j < b" "q < ls ! i * C" for i j q
  proof -
    have "j * (ls ! i * C) \<le> b * (ls ! i * C)" using that by (intro mult_le_mono1) simp
    then have "j * (ls ! i * C) \<le> length (data (ts ! i))"
      by (simp only: dlen [OF that(1)])
    with sh [OF that(1)] that show ?thesis by (simp add: chunk_def)
  qed
  have lens: "map length (map (\<lambda>t. chunk 1 t j) ts) = map (\<lambda>l. l * C) ls" if "j < b" for j
    using len chunk_len [OF _ that] by (intro nth_equalityI) simp_all
  have row_len: "length (row j) = L * C" if "j < b" for j
    unfolding row_def L_def length_concat lens [OF that] by (simp add: sum_list_mult_const)
  have off: "sum_list (map length (take i (map (\<lambda>t. chunk 1 t j) ts))) = sum_list (take i ls) * C"
    if "j < b" for i j
  proof -
    have "map length (take i (map (\<lambda>t. chunk 1 t j) ts))
        = take i (map length (map (\<lambda>t. chunk 1 t j) ts))"
      by (simp only: take_map)
    also have "\<dots> = take i (map (\<lambda>l. l * C) ls)" by (simp only: lens [OF that])
    also have "\<dots> = map (\<lambda>l. l * C) (take i ls)" by (simp only: take_map)
    finally show ?thesis by (simp add: sum_list_mult_const)
  qed
  have nth: "data \<lparr>shape = [b, L, C], data = concat (map row [0..<b])\<rparr>
        ! ((j * L + sum_list (take i ls) + p) * C + k)
      = data (ts ! i) ! ((j * (ls ! i) + p) * C + k)"
    if "i < length ts" "j < b" "p < ls ! i" "k < C" for i j p k
  proof -
    have pk: "p * C + k < ls ! i * C" using that by (intro index_bound)
    have le: "sum_list (take i ls) + ls ! i \<le> L"
    proof -
      have "sum_list (take (Suc i) ls) \<le> sum_list (take (Suc i) ls) + sum_list (drop (Suc i) ls)"
        by simp
      also have "\<dots> = L" unfolding L_def by (simp only: sum_list.append [symmetric] append_take_drop_id)
      finally show ?thesis using that(1) len by (simp add: take_Suc_conv_app_nth)
    qed
    have "sum_list (take i ls) * C + (p * C + k) < sum_list (take i ls) * C + ls ! i * C"
      using pk by simp
    also have "\<dots> \<le> L * C" using le by (simp only: distrib_right [symmetric] mult_le_mono1)
    finally have inrow: "sum_list (take i ls) * C + (p * C + k) < L * C" .
    have idx: "(j * L + sum_list (take i ls) + p) * C + k
        = j * (L * C) + (sum_list (take i ls) * C + (p * C + k))"
      by (simp add: algebra_simps)
    have "concat (map row [0..<b]) ! (j * (L * C) + (sum_list (take i ls) * C + (p * C + k)))
        = row j ! (sum_list (take i ls) * C + (p * C + k))"
      using row_len that(2) inrow by (intro nth_concat_map_upt)
    also have "\<dots> = concat (map (\<lambda>t. chunk 1 t j) ts)
         ! (sum_list (map length (take i (map (\<lambda>t. chunk 1 t j) ts))) + (p * C + k))"
      by (simp only: row_def off [OF that(2)])
    also have "\<dots> = map (\<lambda>t. chunk 1 t j) ts ! i ! (p * C + k)"
      using that pk chunk_len [OF that(1,2)] by (intro nth_concat_offset) simp_all
    also have "\<dots> = chunk 1 (ts ! i) j ! (p * C + k)" using that by simp
    also have "\<dots> = data (ts ! i) ! (j * (ls ! i * C) + (p * C + k))"
      using that pk by (intro chunk_nth)
    also have "j * (ls ! i * C) + (p * C + k) = (j * (ls ! i) + p) * C + k"
      by (simp add: algebra_simps)
    finally show ?thesis by (simp only: idx tensor.select_convs)
  qed
  from r nth show ?thesis unfolding L_def by auto
qed

section \<open>Facts about the training loop\<close>

lemma train_scale_Inr:
  "train_scale d (xc, cl, dl, ll) i = Inr st \<longleftrightarrow>
     (i < length xc \<and> (\<exists>f co ro rl c r l.
        train_branch d (xc ! i) i = Inr (f, co, ro, rl)
        \<and> flatperm (torch_sigmoid co) = Inr c \<and> flatperm ro = Inr r \<and> flatperm rl = Inr l
        \<and> st = (xc[i := f], cl @ [c], dl @ [r], ll @ [l])))"
  by (auto simp: train_scale_def bind_eq_Inr getitem_eq_Inr Let_def)

lemma train_loop_Inr:
  assumes "train_loop d (xc, cl, dl, ll) is = Inr (x', cl', dl', ll')" and "distinct is"
  shows "length x' = length xc \<and> (\<forall>j. j \<notin> set is \<longrightarrow> x' ! j = xc ! j)
     \<and> (\<exists>cs rs ls. cl' = cl @ cs \<and> dl' = dl @ rs \<and> ll' = ll @ ls
          \<and> length cs = length is \<and> length rs = length is \<and> length ls = length is
          \<and> (\<forall>k < length is. is ! k < length xc
               \<and> (\<exists>f co ro rl. train_branch d (xc ! (is ! k)) (is ! k) = Inr (f, co, ro, rl)
                     \<and> x' ! (is ! k) = f
                     \<and> flatperm (torch_sigmoid co) = Inr (cs ! k)
                     \<and> flatperm ro = Inr (rs ! k) \<and> flatperm rl = Inr (ls ! k))))"
  using assms
proof (induction "is" arbitrary: xc cl dl ll)
  case Nil
  then show ?case by simp
next
  case (Cons i "is")
  from Cons.prems(1) obtain st where st: "train_scale d (xc, cl, dl, ll) i = Inr st"
    and rest: "train_loop d st is = Inr (x', cl', dl', ll')"
    by (auto simp: bind_eq_Inr)
  from st obtain f co ro rl c r l where i: "i < length xc"
    and tb: "train_branch d (xc ! i) i = Inr (f, co, ro, rl)"
    and fc: "flatperm (torch_sigmoid co) = Inr c" and fr: "flatperm ro = Inr r"
    and fl: "flatperm rl = Inr l"
    and st_eq: "st = (xc[i := f], cl @ [c], dl @ [r], ll @ [l])"
    unfolding train_scale_Inr by blast
  from Cons.prems(2) have d: "distinct is" and ni: "i \<notin> set is" by simp_all
  from Cons.IH [OF rest [unfolded st_eq] d]
  obtain cs rs ls where len: "length x' = length (xc[i := f])"
    and keep: "\<forall>j. j \<notin> set is \<longrightarrow> x' ! j = xc[i := f] ! j"
    and eqs: "cl' = (cl @ [c]) @ cs" "dl' = (dl @ [r]) @ rs" "ll' = (ll @ [l]) @ ls"
    and lens: "length cs = length is" "length rs = length is" "length ls = length is"
    and each: "\<forall>k < length is. is ! k < length (xc[i := f])
               \<and> (\<exists>f' co ro rl. train_branch d (xc[i := f] ! (is ! k)) (is ! k) = Inr (f', co, ro, rl)
                     \<and> x' ! (is ! k) = f'
                     \<and> flatperm (torch_sigmoid co) = Inr (cs ! k)
                     \<and> flatperm ro = Inr (rs ! k) \<and> flatperm rl = Inr (ls ! k))"
    by blast
  have a: "length x' = length xc" using len by simp
  have b: "\<forall>j. j \<notin> set (i # is) \<longrightarrow> x' ! j = xc ! j" using keep by auto
  have xi: "x' ! i = f" using keep ni i by simp
  have c: "(i # is) ! k < length xc
      \<and> (\<exists>f' co ro rl. train_branch d (xc ! ((i # is) ! k)) ((i # is) ! k) = Inr (f', co, ro, rl)
            \<and> x' ! ((i # is) ! k) = f'
            \<and> flatperm (torch_sigmoid co) = Inr ((c # cs) ! k)
            \<and> flatperm ro = Inr ((r # rs) ! k) \<and> flatperm rl = Inr ((l # ls) ! k))"
    if "k < length (i # is)" for k
  proof (cases k)
    case 0
    have "train_branch d (xc ! i) i = Inr (f, co, ro, rl) \<and> x' ! i = f
        \<and> flatperm (torch_sigmoid co) = Inr c \<and> flatperm ro = Inr r \<and> flatperm rl = Inr l"
      using tb xi fc fr fl by simp
    then have "\<exists>f' co ro rl. train_branch d (xc ! i) i = Inr (f', co, ro, rl) \<and> x' ! i = f'
        \<and> flatperm (torch_sigmoid co) = Inr c \<and> flatperm ro = Inr r \<and> flatperm rl = Inr l"
      by blast
    with i 0 show ?thesis by simp
  next
    case (Suc k')
    with that have k': "k' < length is" by simp
    then have "is ! k' \<in> set is" by simp
    with ni have ne: "is ! k' \<noteq> i" by auto
    then have same: "xc[i := f] ! (is ! k') = xc ! (is ! k')" by simp
    from each k' have "is ! k' < length (xc[i := f])
       \<and> (\<exists>f' co ro rl. train_branch d (xc[i := f] ! (is ! k')) (is ! k') = Inr (f', co, ro, rl)
                     \<and> x' ! (is ! k') = f'
                     \<and> flatperm (torch_sigmoid co) = Inr (cs ! k')
                     \<and> flatperm ro = Inr (rs ! k') \<and> flatperm rl = Inr (ls ! k'))"
      by blast
    then show ?thesis unfolding same Suc by simp
  qed
  then have all: "\<forall>k < length (i # is). (i # is) ! k < length xc
      \<and> (\<exists>f' co ro rl. train_branch d (xc ! ((i # is) ! k)) ((i # is) ! k) = Inr (f', co, ro, rl)
            \<and> x' ! ((i # is) ! k) = f'
            \<and> flatperm (torch_sigmoid co) = Inr ((c # cs) ! k)
            \<and> flatperm ro = Inr ((r # rs) ! k) \<and> flatperm rl = Inr ((l # ls) ! k))"
    by blast
  have e: "cl' = cl @ (c # cs) \<and> dl' = dl @ (r # rs) \<and> ll' = ll @ (l # ls)
     \<and> length (c # cs) = length (i # is) \<and> length (r # rs) = length (i # is)
     \<and> length (l # ls) = length (i # is)"
    using eqs lens by simp
  show ?case
  proof (intro conjI)
    show "length x' = length xc" by (rule a)
    show "\<forall>j. j \<notin> set (i # is) \<longrightarrow> x' ! j = xc ! j" by (rule b)
    show "\<exists>cs rs ls. cl' = cl @ cs \<and> dl' = dl @ rs \<and> ll' = ll @ ls
          \<and> length cs = length (i # is) \<and> length rs = length (i # is) \<and> length ls = length (i # is)
          \<and> (\<forall>k < length (i # is). (i # is) ! k < length xc
               \<and> (\<exists>f co ro rl. train_branch d (xc ! ((i # is) ! k)) ((i # is) ! k) = Inr (f, co, ro, rl)
                     \<and> x' ! ((i # is) ! k) = f
                     \<and> flatperm (torch_sigmoid co) = Inr (cs ! k)
                     \<and> flatperm ro = Inr (rs ! k) \<and> flatperm rl = Inr (ls ! k)))"
      by (rule exI [of _ "c # cs"], rule exI [of _ "r # rs"], rule exI [of _ "l # ls"])
         (use e all in blast)
  qed
qed

lemma train_loop_ok:
  assumes "distinct is"
    and "\<forall>i \<in> set is. i < length xc \<and> (\<exists>f co ro rl c r l.
        train_branch d (xc ! i) i = Inr (f, co, ro, rl)
        \<and> flatperm (torch_sigmoid co) = Inr c \<and> flatperm ro = Inr r \<and> flatperm rl = Inr l)"
  shows "\<exists>st. train_loop d (xc, cl, dl, ll) is = Inr st"
  using assms
proof (induction "is" arbitrary: xc cl dl ll)
  case Nil
  then show ?case by simp
next
  case (Cons i "is")
  from Cons.prems(2) obtain f co ro rl c r l where i: "i < length xc"
    and tb: "train_branch d (xc ! i) i = Inr (f, co, ro, rl)"
    and fc: "flatperm (torch_sigmoid co) = Inr c" and fr: "flatperm ro = Inr r"
    and fl: "flatperm rl = Inr l"
    by auto
  have st: "train_scale d (xc, cl, dl, ll) i = Inr (xc[i := f], cl @ [c], dl @ [r], ll @ [l])"
    unfolding train_scale_Inr using i tb fc fr fl by blast
  from Cons.prems(1) have d: "distinct is" and ni: "i \<notin> set is" by simp_all
  have "\<forall>j \<in> set is. j < length (xc[i := f]) \<and> (\<exists>f' co ro rl c r l.
        train_branch d (xc[i := f] ! j) j = Inr (f', co, ro, rl)
        \<and> flatperm (torch_sigmoid co) = Inr c \<and> flatperm ro = Inr r \<and> flatperm rl = Inr l)"
  proof
    fix j assume j: "j \<in> set is"
    with ni have "j \<noteq> i" by auto
    then have "xc[i := f] ! j = xc ! j" by simp
    with Cons.prems(2) j show "j < length (xc[i := f]) \<and> (\<exists>f' co ro rl c r l.
        train_branch d (xc[i := f] ! j) j = Inr (f', co, ro, rl)
        \<and> flatperm (torch_sigmoid co) = Inr c \<and> flatperm ro = Inr r \<and> flatperm rl = Inr l)"
      by simp
  qed
  from Cons.IH [OF d this] obtain st' where
    "train_loop d (xc[i := f], cl @ [c], dl @ [r], ll @ [l]) is = Inr st'" by blast
  with st have "train_loop d (xc, cl, dl, ll) (i # is) = Inr st'" by simp
  then show ?case ..
qed

lemma cat_flatperm:
  assumes ne: "ts \<noteq> []" and lg: "length gs = length ts" and la: "length as = length ts"
    and each: "\<And>i. i < length ts \<Longrightarrow>
        \<exists>h w. shape (gs ! i) = [b, K, h, w] \<and> as ! i = h * w \<and> flatperm (gs ! i) = Inr (ts ! i)"
  shows "\<exists>r. cat ts 1 = Inr r \<and> shape r = [b, sum_list as, K]
     \<and> (\<forall>i < length ts. \<forall>bi < b. \<forall>p < as ! i. \<forall>k < K.
          data r ! ((bi * sum_list as + sum_list (take i as) + p) * K + k)
            = data (gs ! i) ! ((bi * K + k) * (as ! i) + p))"
proof -
  have fp: "shape (ts ! i) = [b, as ! i, K] \<and> length (data (ts ! i)) = b * (as ! i) * K
      \<and> (\<forall>bi < b. \<forall>n < as ! i. \<forall>k < K.
            data (ts ! i) ! ((bi * (as ! i) + n) * K + k) = data (gs ! i) ! ((bi * K + k) * (as ! i) + n))"
    if "i < length ts" for i
  proof -
    from each [OF that] obtain h w where s: "shape (gs ! i) = [b, K, h, w]"
      and a: "as ! i = h * w" and f: "flatperm (gs ! i) = Inr (ts ! i)" by blast
    from flatperm_4d [OF s] f a show ?thesis by auto
  qed
  then have sh: "\<And>i. i < length ts \<Longrightarrow>
      shape (ts ! i) = [b, as ! i, K] \<and> length (data (ts ! i)) = b * (as ! i) * K"
    by blast
  from cat1 [OF ne la sh] obtain r where r: "cat ts 1 = Inr r" "shape r = [b, sum_list as, K]"
    and el: "\<forall>i < length ts. \<forall>j < b. \<forall>p < as ! i. \<forall>k < K.
          data r ! ((j * sum_list as + sum_list (take i as) + p) * K + k)
            = data (ts ! i) ! ((j * (as ! i) + p) * K + k)"
    by blast
  have "data r ! ((bi * sum_list as + sum_list (take i as) + p) * K + k)
            = data (gs ! i) ! ((bi * K + k) * (as ! i) + p)"
    if "i < length ts" "bi < b" "p < as ! i" "k < K" for i bi p k
    using el fp [OF that(1)] that by simp
  with r show ?thesis by blast
qed

section \<open>Facts about the training pass\<close>

lemma area_shape: "shape t = [b, c, h, w] \<Longrightarrow> area t = h * w"
  by (simp add: area_def)

lemma train_column:
  assumes ne: "0 < n" and lx: "length x = n" and lt: "length ts = n" and lg: "length gs = n"
    and each: "\<And>i. i < n \<Longrightarrow>
        \<exists>c h w. shape (x ! i) = [b, c, h, w] \<and> shape (gs ! i) = [b, K, h, w]
               \<and> flatperm (gs ! i) = Inr (ts ! i)"
  shows "\<exists>r. cat ts 1 = Inr r \<and> shape r = [b, sum_list (map area x), K]
     \<and> (\<forall>i < n. \<forall>bi < b. \<forall>p < area (x ! i). \<forall>k < K.
          data r ! ((bi * sum_list (map area x) + sum_list (map area (take i x)) + p) * K + k)
            = data (gs ! i) ! ((bi * K + k) * area (x ! i) + p))"
proof -
  have ne': "ts \<noteq> []" using ne lt by auto
  have lg': "length gs = length ts" using lg lt by simp
  have la: "length (map area x) = length ts" using lx lt by simp
  have each': "\<exists>h w. shape (gs ! i) = [b, K, h, w] \<and> map area x ! i = h * w
       \<and> flatperm (gs ! i) = Inr (ts ! i)" if "i < length ts" for i
  proof -
    from that lt have i: "i < n" by simp
    from each [OF i] obtain c h w where "shape (x ! i) = [b, c, h, w]"
      "shape (gs ! i) = [b, K, h, w]" "flatperm (gs ! i) = Inr (ts ! i)" by blast
    with i lx show ?thesis by (auto simp: area_shape)
  qed
  from cat_flatperm [OF ne' lg' la each'] obtain r where r: "cat ts 1 = Inr r"
      "shape r = [b, sum_list (map area x), K]"
    and el: "\<forall>i < length ts. \<forall>bi < b. \<forall>p < map area x ! i. \<forall>k < K.
          data r ! ((bi * sum_list (map area x) + sum_list (take i (map area x)) + p) * K + k)
            = data (gs ! i) ! ((bi * K + k) * (map area x ! i) + p)"
    by blast
  have "data r ! ((bi * sum_list (map area x) + sum_list (map area (take i x)) + p) * K + k)
            = data (gs ! i) ! ((bi * K + k) * area (x ! i) + p)"
    if "i < n" "bi < b" "p < area (x ! i)" "k < K" for i bi p k
    using el that lt lx by (simp add: take_map)
  with r show ?thesis by blast
qed

lemma forward_train_Inr:
  assumes "forward_train d x = Inr (x', cls, distri, lrtb)"
  shows "\<exists>cl dl ll. train_loop d (x, [], [], []) [0..<nat (nl d)] = Inr (x', cl, dl, ll)
     \<and> cat cl 1 = Inr cls \<and> cat dl 1 = Inr distri \<and> cat ll 1 = Inr lrtb"
  using assms unfolding forward_train_def
  by (auto simp: bind_eq_Inr)

lemma train_loop_upt:
  assumes "train_loop d (x, [], [], []) [0..<n] = Inr (x', cl, dl, ll)"
  shows "length x' = length x \<and> (\<forall>j. \<not> j < n \<longrightarrow> x' ! j = x ! j)
     \<and> length cl = n \<and> length dl = n \<and> length ll = n
     \<and> (\<forall>k < n. k < length x
           \<and> (\<exists>f co ro rl. train_branch d (x ! k) k = Inr (f, co, ro, rl)
                 \<and> x' ! k = f
                 \<and> flatperm (torch_sigmoid co) = Inr (cl ! k)
                 \<and> flatperm ro = Inr (dl ! k) \<and> flatperm rl = Inr (ll ! k)))"
  using train_loop_Inr [OF assms] by simp

lemma forward_train_values:
  assumes "forward_train d x = Inr (x', cls, distri, lrtb)"
  shows "(\<forall>v \<in> set (data cls). 0 < v \<and> v < 1)
     \<and> (\<forall>v \<in> set (data distri). \<exists>i < nat (nl d). \<exists>f co ro rl.
           train_branch d (x ! i) i = Inr (f, co, ro, rl) \<and> v \<in> set (data ro))
     \<and> (\<forall>v \<in> set (data lrtb). \<exists>i < nat (nl d). \<exists>f co ro rl.
           train_branch d (x ! i) i = Inr (f, co, ro, rl) \<and> v \<in> set (data rl))"
proof -
  define n where "n = nat (nl d)"
  from forward_train_Inr [OF assms] obtain cl dl ll
    where loop: "train_loop d (x, [], [], []) [0..<n] = Inr (x', cl, dl, ll)"
      and cats: "cat cl 1 = Inr cls" "cat dl 1 = Inr distri" "cat ll 1 = Inr lrtb"
    unfolding n_def by blast
  from train_loop_upt [OF loop] have lens: "length cl = n" "length dl = n" "length ll = n"
    and each: "\<forall>k < n. \<exists>f co ro rl. train_branch d (x ! k) k = Inr (f, co, ro, rl)
                 \<and> flatperm (torch_sigmoid co) = Inr (cl ! k)
                 \<and> flatperm ro = Inr (dl ! k) \<and> flatperm rl = Inr (ll ! k)"
    by blast+
  have a: "0 < v \<and> v < 1" if "v \<in> set (data cls)" for v
  proof -
    from cat_data_subset [OF cats(1)] that obtain t where "t \<in> set cl" "v \<in> set (data t)" by auto
    then obtain k where k: "k < n" and v: "v \<in> set (data (cl ! k))"
      using lens by (auto simp: in_set_conv_nth)
    from each k obtain f co ro rl where tb: "train_branch d (x ! k) k = Inr (f, co, ro, rl)"
      and fp: "flatperm (torch_sigmoid co) = Inr (cl ! k)" by blast
    from train_branch_Inr [OF tb] have "wf_tensor (torch_sigmoid co)"
      by (simp add: wf_torch_sigmoid)
    from flatperm_set [OF fp this] v have "v \<in> sigmoid ` set (data co)" by auto
    then show ?thesis using sigmoid_range by auto
  qed
  have b: "\<exists>i < n. \<exists>f co ro rl. train_branch d (x ! i) i = Inr (f, co, ro, rl) \<and> v \<in> set (data ro)"
    if "v \<in> set (data distri)" for v
  proof -
    from cat_data_subset [OF cats(2)] that obtain t where "t \<in> set dl" "v \<in> set (data t)" by auto
    then obtain k where k: "k < n" and v: "v \<in> set (data (dl ! k))"
      using lens by (auto simp: in_set_conv_nth)
    from each k obtain f co ro rl where tb: "train_branch d (x ! k) k = Inr (f, co, ro, rl)"
      and fp: "flatperm ro = Inr (dl ! k)" by blast
    from train_branch_Inr [OF tb] have "wf_tensor ro" by simp
    from flatperm_set [OF fp this] v have "v \<in> set (data ro)" by auto
    with k tb show ?thesis by blast
  qed
  have c: "\<exists>i < n. \<exists>f co ro rl. train_branch d (x ! i) i = Inr (f, co, ro, rl) \<and> v \<in> set (data rl)"
    if "v \<in> set (data lrtb)" for v
  proof -
    from cat_data_subset [OF cats(3)] that obtain t where "t \<in> set ll" "v \<in> set (data t)" by auto
    then obtain k where k: "k < n" and v: "v \<in> set (data (ll ! k))"
      using lens by (auto simp: in_set_conv_nth)
    from each k obtain f co ro rl where tb: "train_branch d (x ! k) k = Inr (f, co, ro, rl)"
      and fp: "flatperm rl = Inr (ll ! k)" by blast
    from train_branch_Inr [OF tb] have "wf_tensor rl" by simp
    from flatperm_set [OF fp this] v have "v \<in> set (data rl)" by auto
    with k tb show ?thesis by blast
  qed
  from a b c show ?thesis unfolding n_def by blast
qed

lemma forward_train_slots:
  assumes "forward_train d x = Inr (x', cls, distri, lrtb)"
  shows "length x' = length x
     \<and> (\<forall>i < nat (nl d). i < length x \<and> i < length (stems d)
            \<and> call (stems d ! i) (x ! i) = Inr (x' ! i))
     \<and> (\<forall>i. \<not> i < nat (nl d) \<longrightarrow> x' ! i = x ! i)"
proof -
  from forward_train_Inr [OF assms] obtain cl dl ll
    where loop: "train_loop d (x, [], [], []) [0..<nat (nl d)] = Inr (x', cl, dl, ll)"
    by blast
  from train_loop_upt [OF loop] have l: "length x' = length x"
    and k: "\<forall>j. \<not> j < nat (nl d) \<longrightarrow> x' ! j = x ! j"
    and each: "\<forall>k < nat (nl d). k < length x
           \<and> (\<exists>f co ro rl. train_branch d (x ! k) k = Inr (f, co, ro, rl) \<and> x' ! k = f)"
    by blast+
  have "i < length x \<and> i < length (stems d) \<and> call (stems d ! i) (x ! i) = Inr (x' ! i)"
    if "i < nat (nl d)" for i
  proof -
    from each that obtain f co ro rl where "i < length x"
      "train_branch d (x ! i) i = Inr (f, co, ro, rl)" "x' ! i = f" by blast
    with train_branch_Inr [of d "x ! i" i f co ro rl] show ?thesis by simp
  qed
  with l k show ?thesis by blast
qed

lemma forward_train_ok:
  assumes n: "0 < nat (nl d)" and lx: "length x = nat (nl d)"
    and contract: "\<forall>i < nat (nl d). \<exists>c h w f co ro rl.
        shape (x ! i) = [b, c, h, w] \<and> train_branch d (x ! i) i = Inr (f, co, ro, rl)
        \<and> shape co = [b, C, h, w] \<and> shape ro = [b, D, h, w] \<and> shape rl = [b, 4, h, w]"
  shows "\<exists>x' cls distri lrtb. forward_train d x = Inr (x', cls, distri, lrtb)
     \<and> shape cls = [b, sum_list (map area x), C]
     \<and> shape distri = [b, sum_list (map area x), D]
     \<and> shape lrtb = [b, sum_list (map area x), 4]
     \<and> (\<forall>i < nat (nl d). \<forall>f co ro rl. train_branch d (x ! i) i = Inr (f, co, ro, rl) \<longrightarrow>
          (\<forall>bi < b. \<forall>p < area (x ! i).
             (\<forall>k < C. data cls ! ((bi * sum_list (map area x) + sum_list (map area (take i x)) + p) * C + k)
                          = sigmoid (data co ! ((bi * C + k) * area (x ! i) + p)))
           \<and> (\<forall>k < D. data distri ! ((bi * sum_list (map area x) + sum_list (map area (take i x)) + p) * D + k)
                          = data ro ! ((bi * D + k) * area (x ! i) + p))
           \<and> (\<forall>k < 4. data lrtb ! ((bi * sum_list (map area x) + sum_list (map area (take i x)) + p) * 4 + k)
                          = data rl ! ((bi * 4 + k) * area (x ! i) + p))))"
proof -
  define n where "n = nat (nl d)"
  define tb where "tb = (\<lambda>i. projr (train_branch d (x ! i) i))"
  define cos where "cos = map (\<lambda>i. torch_sigmoid (fst (snd (tb i)))) [0..<n]"
  define ros where "ros = map (\<lambda>i. fst (snd (snd (tb i)))) [0..<n]"
  define rls where "rls = map (\<lambda>i. snd (snd (snd (tb i)))) [0..<n]"
  have con: "\<exists>c h w. shape (x ! i) = [b, c, h, w] \<and> train_branch d (x ! i) i = Inr (tb i)
       \<and> shape (fst (snd (tb i))) = [b, C, h, w] \<and> shape (fst (snd (snd (tb i)))) = [b, D, h, w]
       \<and> shape (snd (snd (snd (tb i)))) = [b, 4, h, w]" if "i < n" for i
  proof -
    from contract that obtain c h w f co ro rl where
      "shape (x ! i) = [b, c, h, w]" "train_branch d (x ! i) i = Inr (f, co, ro, rl)"
      "shape co = [b, C, h, w]" "shape ro = [b, D, h, w]" "shape rl = [b, 4, h, w]"
      unfolding n_def by blast
    then show ?thesis unfolding tb_def by simp
  qed
  have pre: "\<forall>i \<in> set [0..<n]. i < length x \<and> (\<exists>f co ro rl c r l.
        train_branch d (x ! i) i = Inr (f, co, ro, rl)
        \<and> flatperm (torch_sigmoid co) = Inr c \<and> flatperm ro = Inr r \<and> flatperm rl = Inr l)"
  proof
    fix i assume "i \<in> set [0..<n]"
    then have i: "i < n" by simp
    from con [OF i] obtain c h w where t: "train_branch d (x ! i) i = Inr (tb i)"
       and s1: "shape (torch_sigmoid (fst (snd (tb i)))) = [b, C, h, w]"
       and s2: "shape (fst (snd (snd (tb i)))) = [b, D, h, w]"
       and s3: "shape (snd (snd (snd (tb i)))) = [b, 4, h, w]" by auto
    from flatperm_4d [OF s1] flatperm_4d [OF s2] flatperm_4d [OF s3]
    obtain c' r' l' where "flatperm (torch_sigmoid (fst (snd (tb i)))) = Inr c'"
      "flatperm (fst (snd (snd (tb i)))) = Inr r'" "flatperm (snd (snd (snd (tb i)))) = Inr l'"
      by blast
    with t have "\<exists>f co ro rl c r l.
        train_branch d (x ! i) i = Inr (f, co, ro, rl)
        \<and> flatperm (torch_sigmoid co) = Inr c \<and> flatperm ro = Inr r \<and> flatperm rl = Inr l"
      by (metis prod.collapse)
    with i lx show "i < length x \<and> (\<exists>f co ro rl c r l.
        train_branch d (x ! i) i = Inr (f, co, ro, rl)
        \<and> flatperm (torch_sigmoid co) = Inr c \<and> flatperm ro = Inr r \<and> flatperm rl = Inr l)"
      unfolding n_def by simp
  qed
  have "distinct [0..<n]" by simp
  from train_loop_ok [OF this pre] obtain st where "train_loop d (x, [], [], []) [0..<n] = Inr st"
    by blast
  then obtain x' cl dl ll where loop: "train_loop d (x, [], [], []) [0..<n] = Inr (x', cl, dl, ll)"
    by (cases st) auto
  from train_loop_upt [OF loop] have lens: "length cl = n" "length dl = n" "length ll = n"
    and each: "\<forall>k < n. \<exists>f co ro rl. train_branch d (x ! k) k = Inr (f, co, ro, rl)
                 \<and> flatperm (torch_sigmoid co) = Inr (cl ! k)
                 \<and> flatperm ro = Inr (dl ! k) \<and> flatperm rl = Inr (ll ! k)"
    by blast+
  have fl: "flatperm (torch_sigmoid (fst (snd (tb i)))) = Inr (cl ! i)
      \<and> flatperm (fst (snd (snd (tb i)))) = Inr (dl ! i)
      \<and> flatperm (snd (snd (snd (tb i)))) = Inr (ll ! i)" if "i < n" for i
    using each that unfolding tb_def by auto
  have n0: "0 < n" and lxn: "length x = n" using n lx by (simp_all add: n_def)
  have lc: "length cos = n" "length ros = n" "length rls = n"
    by (simp_all add: cos_def ros_def rls_def)
  have e1: "\<exists>c h w. shape (x ! i) = [b, c, h, w] \<and> shape (cos ! i) = [b, C, h, w]
               \<and> flatperm (cos ! i) = Inr (cl ! i)" if "i < n" for i
    using con [OF that] fl [OF that] that by (auto simp: cos_def)
  have e2: "\<exists>c h w. shape (x ! i) = [b, c, h, w] \<and> shape (ros ! i) = [b, D, h, w]
               \<and> flatperm (ros ! i) = Inr (dl ! i)" if "i < n" for i
    using con [OF that] fl [OF that] that by (auto simp: ros_def)
  have e3: "\<exists>c h w. shape (x ! i) = [b, c, h, w] \<and> shape (rls ! i) = [b, 4, h, w]
               \<and> flatperm (rls ! i) = Inr (ll ! i)" if "i < n" for i
    using con [OF that] fl [OF that] that by (auto simp: rls_def)
  let ?T = "sum_list (map area x)"
  let ?O = "\<lambda>i. sum_list (map area (take i x))"
  from train_column [OF n0 lxn lens(1) lc(1) e1] obtain cls where cls: "cat cl 1 = Inr cls"
      "shape cls = [b, ?T, C]"
    and el1: "\<forall>i < n. \<forall>bi < b. \<forall>p < area (x ! i). \<forall>k < C.
          data cls ! ((bi * ?T + ?O i + p) * C + k) = data (cos ! i) ! ((bi * C + k) * area (x ! i) + p)"
    by blast
  from train_column [OF n0 lxn lens(2) lc(2) e2] obtain distri where distri: "cat dl 1 = Inr distri"
      "shape distri = [b, ?T, D]"
    and el2: "\<forall>i < n. \<forall>bi < b. \<forall>p < area (x ! i). \<forall>k < D.
          data distri ! ((bi * ?T + ?O i + p) * D + k) = data (ros ! i) ! ((bi * D + k) * area (x ! i) + p)"
    by blast
  from train_column [OF n0 lxn lens(3) lc(3) e3] obtain lrtb where lrtb: "cat ll 1 = Inr lrtb"
      "shape lrtb = [b, ?T, 4]"
    and el3: "\<forall>i < n. \<forall>bi < b. \<forall>p < area (x ! i). \<forall>k < 4.
          data lrtb ! ((bi * ?T + ?O i + p) * 4 + k) = data (rls ! i) ! ((bi * 4 + k) * area (x ! i) + p)"
    by blast
  have fw: "forward_train d x = Inr (x', cls, distri, lrtb)"
    unfolding forward_train_def using loop cls(1) distri(1) lrtb(1) by (simp add: n_def)
  have els: "(\<forall>k < C. data cls ! ((bi * ?T + ?O i + p) * C + k)
                          = sigmoid (data co ! ((bi * C + k) * area (x ! i) + p)))
           \<and> (\<forall>k < D. data distri ! ((bi * ?T + ?O i + p) * D + k)
                          = data ro ! ((bi * D + k) * area (x ! i) + p))
           \<and> (\<forall>k < 4. data lrtb ! ((bi * ?T + ?O i + p) * 4 + k)
                          = data rl ! ((bi * 4 + k) * area (x ! i) + p))"
    if i: "i < n" and t: "train_branch d (x ! i) i = Inr (f, co, ro, rl)"
      and bi: "bi < b" and p: "p < area (x ! i)" for i f co ro rl bi p
  proof -
    from t have tbi: "tb i = (f, co, ro, rl)" unfolding tb_def by simp
    from con [OF i] tbi obtain c h w where sx: "shape (x ! i) = [b, c, h, w]"
      and sco: "shape co = [b, C, h, w]" by auto
    from sx have ar: "area (x ! i) = h * w" by (rule area_shape)
    from train_branch_Inr [OF t] sco have lco: "length (data co) = b * C * (h * w)"
      by (simp add: wf_tensor_def numel_def mult.assoc)
    have ci: "cos ! i = torch_sigmoid co" "ros ! i = ro" "rls ! i = rl"
      using i tbi by (simp_all add: cos_def ros_def rls_def)
    have s: "data (torch_sigmoid co) ! ((bi * C + k) * area (x ! i) + p)
        = sigmoid (data co ! ((bi * C + k) * area (x ! i) + p))" if "k < C" for k
    proof -
      have m: "bi * C + k < b * C" using bi that by (rule index_bound)
      have q: "p < h * w" using p ar by simp
      from m q have "(bi * C + k) * (h * w) + p < (b * C) * (h * w)"
        by (rule index_bound)
      with lco ar show ?thesis by simp
    qed
    from el1 el2 el3 i bi p s show ?thesis unfolding ci [symmetric] by (simp add: ci)
  qed
  from fw cls(2) distri(2) lrtb(2) els show ?thesis unfolding n_def by blast
qed

section \<open>Facts about the anchor grid and the inference loop\<close>

lemma length_grid_points: "length (grid_points off h w) = h * w"
  unfolding grid_points_def by (rule length_concat_map_upt) simp

lemma nth_grid_points:
  assumes "r < h" "col < w"
  shows "grid_points off h w ! (r * w + col) = (real col + off, real r + off)"
proof -
  have "grid_points off h w ! (r * w + col)
      = map (\<lambda>c. (real c + off, real r + off)) [0..<w] ! col"
    unfolding grid_points_def using assms by (intro nth_concat_map_upt) simp_all
  with assms show ?thesis by simp
qed

lemma length_scale_points: "length (scale_points off t) = area t"
  by (simp add: scale_points_def area_def length_grid_points split: list.splits)

lemma slice_concat:
  assumes "i < length xss"
  shows "slice (concat xss) (sum_list (map length (take i xss)))
           (sum_list (map length (take i xss)) + length (xss ! i)) = xss ! i"
proof -
  have "concat xss = concat (take i xss) @ (xss ! i @ concat (drop (Suc i) xss))"
    using assms by (metis concat.simps(2) concat_append id_take_nth_drop)
  moreover have "length (concat (take i xss)) = sum_list (map length (take i xss))"
    by (simp add: length_concat)
  ultimately show ?thesis by (simp add: slice_def)
qed

lemma generate_anchors_Inr:
  assumes "generate_anchors feats strides cs off = Inr (ap, st)"
  shows "length strides = length feats \<and> (\<forall>t \<in> set feats. 0 < area t)
     \<and> ap = concat (map (scale_points off) feats)
     \<and> st = concat (map (\<lambda>(t, s). replicate (area t) (real_of_int s)) (zip feats strides))"
  using assms by (auto simp: generate_anchors_def split: if_splits)

lemma anchor_lengths:
  assumes "length strides = length feats"
  shows "map length (map (scale_points off) feats) = map area feats"
    and "map length (map (\<lambda>(t, s). replicate (area t) (real_of_int s)) (zip feats strides))
           = map area feats"
  using assms by (auto intro!: nth_equalityI simp: length_scale_points)

lemma generate_anchors_slices:
  assumes g: "generate_anchors feats strides cs off = Inr (ap, st)" and i: "i < length feats"
  shows "slice ap (sum_list (map area (take i feats)))
           (sum_list (map area (take i feats)) + area (feats ! i)) = scale_points off (feats ! i)"
    and "slice st (sum_list (map area (take i feats)))
           (sum_list (map area (take i feats)) + area (feats ! i))
           = replicate (area (feats ! i)) (real_of_int (strides ! i))"
    and "length ap = sum_list (map area feats)" and "length st = sum_list (map area feats)"
proof -
  from generate_anchors_Inr [OF g] have l: "length strides = length feats"
    and ap: "ap = concat (map (scale_points off) feats)"
    and st: "st = concat (map (\<lambda>(t, s). replicate (area t) (real_of_int s)) (zip feats strides))"
    by blast+
  let ?A = "map (scale_points off) feats"
  let ?S = "map (\<lambda>(t, s). replicate (area t) (real_of_int s)) (zip feats strides)"
  have ta: "map length (take i ?A) = map area (take i feats)"
    using anchor_lengths(1) [OF l, of off] by (metis take_map)
  have ts: "map length (take i ?S) = map area (take i feats)"
    using anchor_lengths(2) [OF l] by (metis take_map)
  have ia: "i < length ?A" and i_s: "i < length ?S" using i l by simp_all
  have na: "?A ! i = scale_points off (feats ! i)" using i by simp
  have ns: "?S ! i = replicate (area (feats ! i)) (real_of_int (strides ! i))" using i l by simp
  from slice_concat [OF ia] show "slice ap (sum_list (map area (take i feats)))
           (sum_list (map area (take i feats)) + area (feats ! i)) = scale_points off (feats ! i)"
    unfolding ta ap na by (simp add: length_scale_points)
  from slice_concat [OF i_s] show "slice st (sum_list (map area (take i feats)))
           (sum_list (map area (take i feats)) + area (feats ! i))
           = replicate (area (feats ! i)) (real_of_int (strides ! i))"
    unfolding ts st ns by simp
  show "length ap = sum_list (map area feats)"
    unfolding ap length_concat anchor_lengths(1) [OF l] ..
  show "length st = sum_list (map area feats)"
    unfolding st length_concat anchor_lengths(2) [OF l] ..
qed

lemma infer_scale_Inr:
  assumes "infer_scale d x ap st start i = Inr loc"
  shows "i < length x \<and> (\<exists>b c h w co ro cls_output reg_output distance boxes pred s0.
      shape (x ! i) = [b, c, h, w] \<and> eval_branch d (x ! i) i = Inr (co, ro)
      \<and> permute0231 (torch_sigmoid co) = Inr cls_output \<and> permute0231 ro = Inr reg_output
      \<and> reshape_rows4 reg_output = Inr distance
      \<and> dist2bbox distance (slice ap start (start + h * w)) XYWH = Inr boxes
      \<and> reshape boxes [b, h, w, 4] = Inr pred
      \<and> getitem (slice st start (start + h * w)) 0 = Inr s0
      \<and> cat [imul pred s0, ones [b, h, w, 1], cls_output] 3 = Inr (scale_output loc)
      \<and> start_idx loc = start \<and> end_idx loc = start + h * w
      \<and> scale_anchor_points loc = slice ap start (start + h * w)
      \<and> scale_stride loc = slice st start (start + h * w))"
proof -
  from assms have i: "i < length x"
    by (auto simp: infer_scale_def bind_eq_Inr getitem_eq_Inr)
  from assms i obtain b c h w where s: "shape (x ! i) = [b, c, h, w]"
    by (auto simp: infer_scale_def split: list.splits)
  from assms i s show ?thesis
    by (auto simp: infer_scale_def bind_eq_Inr Let_def)
qed

lemma infer_scale_end:
  assumes "infer_scale d x ap st start i = Inr loc"
  shows "start_idx loc = start \<and> end_idx loc = start + area (x ! i)"
  using infer_scale_Inr [OF assms] by (auto simp: area_shape)

lemma infer_loop_Inr:
  assumes "infer_loop d x ap st s is = Inr locs"
  shows "length locs = length is
     \<and> (\<forall>k < length is.
          infer_scale d x ap st (s + sum_list (map (\<lambda>i. area (x ! i)) (take k is))) (is ! k)
            = Inr (locs ! k))"
  using assms
proof (induction "is" arbitrary: s locs)
  case Nil
  then show ?case by simp
next
  case (Cons i "is")
  from Cons.prems obtain loc rest where loc: "infer_scale d x ap st s i = Inr loc"
    and rest: "infer_loop d x ap st (end_idx loc) is = Inr rest" and locs: "locs = loc # rest"
    by (auto simp: bind_eq_Inr)
  from infer_scale_end [OF loc] have e: "end_idx loc = s + area (x ! i)" by simp
  from Cons.IH [OF rest] have len: "length rest = length is"
    and each: "\<forall>k < length is.
          infer_scale d x ap st (end_idx loc + sum_list (map (\<lambda>i. area (x ! i)) (take k is))) (is ! k)
            = Inr (rest ! k)"
    by blast+
  have "infer_scale d x ap st (s + sum_list (map (\<lambda>i. area (x ! i)) (take k (i # is)))) ((i # is) ! k)
            = Inr (locs ! k)" if "k < length (i # is)" for k
  proof (cases k)
    case 0
    with loc locs show ?thesis by simp
  next
    case (Suc k')
    with that have "k' < length is" by simp
    with each have "infer_scale d x ap st
        (end_idx loc + sum_list (map (\<lambda>i. area (x ! i)) (take k' is))) (is ! k') = Inr (rest ! k')"
      by blast
    then show ?thesis unfolding Suc locs e by (simp add: add.assoc)
  qed
  with len locs show ?case by simp
qed

lemma map_nth_upt: "k \<le> length xs \<Longrightarrow> map (\<lambda>i. f (xs ! i)) [0..<k] = map f (take k xs)"
  by (intro nth_equalityI) simp_all

lemma forward_eval_locals_Inr:
  assumes "forward_eval_locals d x = Inr locs"
  shows "\<exists>ap st. generate_anchors x (stride d) (grid_cell_size d) (grid_cell_offset d) = Inr (ap, st)
     \<and> length locs = nat (nl d) \<and> nat (nl d) \<le> length x
     \<and> (\<forall>k < nat (nl d).
          infer_scale d x ap st (sum_list (map area (take k x))) k = Inr (locs ! k))"
proof -
  from assms obtain ap st where
    g: "generate_anchors x (stride d) (grid_cell_size d) (grid_cell_offset d) = Inr (ap, st)"
    and l: "infer_loop d x ap st 0 [0..<nat (nl d)] = Inr locs"
    unfolding forward_eval_locals_def by (auto simp: bind_eq_Inr)
  from infer_loop_Inr [OF l] have len: "length locs = nat (nl d)"
    and each: "\<forall>k < nat (nl d).
          infer_scale d x ap st (0 + sum_list (map (\<lambda>i. area (x ! i)) (take k [0..<nat (nl d)])))
            ([0..<nat (nl d)] ! k) = Inr (locs ! k)"
    by simp_all
  have le: "nat (nl d) \<le> length x"
  proof (cases "nat (nl d)")
    case 0
    then show ?thesis by simp
  next
    case (Suc m)
    then have m: "m < nat (nl d)" by simp
    with each have e: "infer_scale d x ap st
       (0 + sum_list (map (\<lambda>i. area (x ! i)) (take m [0..<nat (nl d)]))) ([0..<nat (nl d)] ! m)
         = Inr (locs ! m)" by blast
    from infer_scale_Inr [OF e] have "[0..<nat (nl d)] ! m < length x" by (rule conjunct1)
    moreover have "[0..<nat (nl d)] ! m = m" using m by simp
    ultimately show ?thesis using Suc by simp
  qed
  have "infer_scale d x ap st (sum_list (map area (take k x))) k = Inr (locs ! k)"
    if "k < nat (nl d)" for k
  proof -
    from that have t: "take k [0..<nat (nl d)] = [0..<k]" by (simp add: take_upt)
    have meq: "map (\<lambda>i. area (x ! i)) [0..<k] = map area (take k x)"
      using that le by (intro map_nth_upt) simp
    have nk: "[0..<nat (nl d)] ! k = k" using that by simp
    from each that have "infer_scale d x ap st
        (0 + sum_list (map (\<lambda>i. area (x ! i)) (take k [0..<nat (nl d)])))
            ([0..<nat (nl d)] ! k) = Inr (locs ! k)" by blast
    then show ?thesis unfolding t meq nk by simp
  qed
  with g len le show ?thesis by blast
qed

text \<open>
  C1. In a successful inference pass over \<open>nl\<close> feature maps, the start index of
  scale \<open>i\<close> is the sum of the areas \<open>h * w\<close> of the scales before it (0 for the
  first), the end index is the start index plus the area of scale \<open>i\<close> and is the
  start index of the next scale, both slices have exactly that many entries, and the
  slices of all scales, in scale order, concatenate to the whole anchor set and the
  whole stride sequence, whose length is the sum of all areas.
\<close>

theorem forward_eval_slices:
  assumes f: "forward_eval_locals d x = Inr locs" and lx: "length x = nat (nl d)"
  shows "length locs = nat (nl d)
     \<and> (\<forall>i < nat (nl d).
           start_idx (locs ! i) = sum_list (map area (take i x))
         \<and> end_idx (locs ! i) = start_idx (locs ! i) + area (x ! i)
         \<and> length (scale_anchor_points (locs ! i)) = area (x ! i)
         \<and> length (scale_stride (locs ! i)) = area (x ! i)
         \<and> (Suc i < nat (nl d) \<longrightarrow> start_idx (locs ! Suc i) = end_idx (locs ! i)))
     \<and> (\<exists>ap st.
           generate_anchors x (stride d) (grid_cell_size d) (grid_cell_offset d) = Inr (ap, st)
         \<and> length ap = sum_list (map area x) \<and> length st = sum_list (map area x)
         \<and> (\<forall>i < nat (nl d).
               scale_anchor_points (locs ! i) = slice ap (start_idx (locs ! i)) (end_idx (locs ! i))
             \<and> scale_stride (locs ! i) = slice st (start_idx (locs ! i)) (end_idx (locs ! i)))
         \<and> concat (map scale_anchor_points locs) = ap
         \<and> concat (map scale_stride locs) = st)"
proof -
  define n where "n = nat (nl d)"
  let ?off = "grid_cell_offset d"
  from forward_eval_locals_Inr [OF f] obtain ap st where
    g: "generate_anchors x (stride d) (grid_cell_size d) ?off = Inr (ap, st)"
    and len: "length locs = n"
    and each: "\<forall>k < n. infer_scale d x ap st (sum_list (map area (take k x))) k = Inr (locs ! k)"
    unfolding n_def by blast
  have lxn: "length x = n" using lx by (simp add: n_def)
  from generate_anchors_Inr [OF g] have ls: "length (stride d) = length x"
    and apd: "ap = concat (map (scale_points ?off) x)"
    and std: "st = concat (map (\<lambda>(t, s). replicate (area t) (real_of_int s)) (zip x (stride d)))"
    by blast+
  have loc: "start_idx (locs ! i) = sum_list (map area (take i x))
      \<and> end_idx (locs ! i) = sum_list (map area (take i x)) + area (x ! i)
      \<and> scale_anchor_points (locs ! i) = scale_points ?off (x ! i)
      \<and> scale_stride (locs ! i) = replicate (area (x ! i)) (real_of_int (stride d ! i))
      \<and> scale_anchor_points (locs ! i) = slice ap (start_idx (locs ! i)) (end_idx (locs ! i))
      \<and> scale_stride (locs ! i) = slice st (start_idx (locs ! i)) (end_idx (locs ! i))"
    if "i < n" for i
  proof -
    from each that have s: "infer_scale d x ap st (sum_list (map area (take i x))) i = Inr (locs ! i)"
      by blast
    from that lxn have i: "i < length x" by simp
    from infer_scale_Inr [OF s] obtain b c h w where sh: "shape (x ! i) = [b, c, h, w]"
      and a: "scale_anchor_points (locs ! i)
          = slice ap (sum_list (map area (take i x))) (sum_list (map area (take i x)) + h * w)"
      and b: "scale_stride (locs ! i)
          = slice st (sum_list (map area (take i x))) (sum_list (map area (take i x)) + h * w)"
      by blast
    from sh have ar: "h * w = area (x ! i)" by (simp add: area_shape)
    from infer_scale_end [OF s] a b generate_anchors_slices(1,2) [OF g i] show ?thesis
      unfolding ar by simp
  qed
  have nxt: "start_idx (locs ! Suc i) = end_idx (locs ! i)" if "Suc i < n" for i
  proof -
    from that have i: "i < n" by simp
    from that lxn have "take (Suc i) x = take i x @ [x ! i]"
      by (simp add: take_Suc_conv_app_nth)
    with loc [OF that] loc [OF i] show ?thesis by simp
  qed
  have ma: "map scale_anchor_points locs = map (scale_points ?off) x"
    using len lxn loc by (intro nth_equalityI) simp_all
  have ms: "map scale_stride locs
      = map (\<lambda>(t, s). replicate (area t) (real_of_int s)) (zip x (stride d))"
    using len lxn loc ls by (intro nth_equalityI) simp_all
  have A: "\<forall>i < n. start_idx (locs ! i) = sum_list (map area (take i x))
         \<and> end_idx (locs ! i) = start_idx (locs ! i) + area (x ! i)
         \<and> length (scale_anchor_points (locs ! i)) = area (x ! i)
         \<and> length (scale_stride (locs ! i)) = area (x ! i)
         \<and> (Suc i < n \<longrightarrow> start_idx (locs ! Suc i) = end_idx (locs ! i))"
    using loc nxt by (simp add: length_scale_points)
  have B: "\<forall>i < n. scale_anchor_points (locs ! i) = slice ap (start_idx (locs ! i)) (end_idx (locs ! i))
             \<and> scale_stride (locs ! i) = slice st (start_idx (locs ! i)) (end_idx (locs ! i))"
    using loc by blast
  have C: "concat (map scale_anchor_points locs) = ap" "concat (map scale_stride locs) = st"
    unfolding ma ms apd std by simp_all
  have D: "length ap = sum_list (map area x)" "length st = sum_list (map area x)"
  proof -
    show "length ap = sum_list (map area x)"
      unfolding apd length_concat anchor_lengths(1) [OF ls] ..
    show "length st = sum_list (map area x)"
      unfolding std length_concat anchor_lengths(2) [OF ls] ..
  qed
  from len A B C D g show ?thesis unfolding n_def by blast
qed

section \<open>Facts about one scale of the inference loop\<close>

lemma chunk_row:
  assumes "prod_list (drop a (shape t)) = k" and "length (data t) = P * k" and "q < P"
  shows "length (chunk a t q) = k" and "j < k \<Longrightarrow> chunk a t q ! j = data t ! (q * k + j)"
proof -
  have "Suc q * k \<le> P * k" using assms(3) by (intro mult_le_mono1) simp
  then have le: "q * k + k \<le> length (data t)" using assms(2) by simp
  then show "length (chunk a t q) = k" using assms(1) by (simp add: chunk_def)
  show "chunk a t q ! j = data t ! (q * k + j)" if "j < k"
    using le that assms(1) by (simp add: chunk_def)
qed

lemma cat_Inr_shapes:
  assumes "cat ts a = Inr r" and "t \<in> set ts"
  shows "length (shape t) = length (shape (hd ts)) \<and> (shape t)[a := 0] = (shape (hd ts))[a := 0]"
  using assms by (auto simp: cat_def split: list.splits if_splits)

lemma cat_last3:
  assumes sA: "shape A = [b, h, w, ka]" and sB: "shape B = [b, h, w, kb]"
    and sC: "shape Cc = [b, h, w, kc]"
    and lA: "length (data A) = (b * h * w) * ka" and lB: "length (data B) = (b * h * w) * kb"
    and lC: "length (data Cc) = (b * h * w) * kc"
  shows "\<exists>r. cat [A, B, Cc] 3 = Inr r \<and> shape r = [b, h, w, ka + kb + kc]
     \<and> (\<forall>q < b * h * w.
           (\<forall>j < ka. data r ! (q * (ka + kb + kc) + j) = data A ! (q * ka + j))
         \<and> (\<forall>j < kb. data r ! (q * (ka + kb + kc) + (ka + j)) = data B ! (q * kb + j))
         \<and> (\<forall>j < kc. data r ! (q * (ka + kb + kc) + (ka + kb + j)) = data Cc ! (q * kc + j)))"
proof -
  define P where "P = b * h * w"
  define row where "row = (\<lambda>q. chunk 3 A q @ chunk 3 B q @ chunk 3 Cc q)"
  have tk: "prod_list (take 3 (shape A)) = P" by (simp add: sA P_def mult.assoc)
  have upd: "(shape A)[3 := X] = [b, h, w, X]" for X by (simp add: sA)
  have sm: "sum_list (map (\<lambda>t. shape t ! 3) [A, B, Cc]) = ka + kb + kc"
    by (simp add: sA sB sC)
  have "cat [A, B, Cc] 3 = Inr \<lparr>shape = (shape A)[3 := sum_list (map (\<lambda>t. shape t ! 3) [A, B, Cc])],
        data = concat (map (\<lambda>q. concat (map (\<lambda>t. chunk 3 t q) [A, B, Cc]))
                 [0..<prod_list (take 3 (shape A))])\<rparr>"
    by (simp add: cat_def sA sB sC)
  then have r: "cat [A, B, Cc] 3
      = Inr \<lparr>shape = [b, h, w, ka + kb + kc], data = concat (map row [0..<P])\<rparr>"
    unfolding sm upd tk row_def by simp
  have dA: "prod_list (drop 3 (shape A)) = ka" by (simp add: sA)
  have dB: "prod_list (drop 3 (shape B)) = kb" by (simp add: sB)
  have dC: "prod_list (drop 3 (shape Cc)) = kc" by (simp add: sC)
  note cA = chunk_row [OF dA lA [folded P_def]]
  note cB = chunk_row [OF dB lB [folded P_def]]
  note cC = chunk_row [OF dC lC [folded P_def]]
  have row_len: "length (row q) = ka + kb + kc" if "q < P" for q
    unfolding row_def using cA(1) [OF that] cB(1) [OF that] cC(1) [OF that] by simp
  have el: "concat (map row [0..<P]) ! (q * (ka + kb + kc) + j) = row q ! j"
    if "q < P" "j < ka + kb + kc" for q j
    using row_len that by (intro nth_concat_map_upt)
  have a: "concat (map row [0..<P]) ! (q * (ka + kb + kc) + j) = data A ! (q * ka + j)"
    if "q < P" "j < ka" for q j
  proof -
    have "row q ! j = chunk 3 A q ! j"
      unfolding row_def using cA(1) [OF that(1)] that(2) by (simp add: nth_append)
    with el [of q j] that cA(2) [OF that] show ?thesis by simp
  qed
  have b: "concat (map row [0..<P]) ! (q * (ka + kb + kc) + (ka + j)) = data B ! (q * kb + j)"
    if "q < P" "j < kb" for q j
  proof -
    have "row q ! (ka + j) = chunk 3 B q ! j"
      unfolding row_def using cA(1) [OF that(1)] cB(1) [OF that(1)] that(2) by (simp add: nth_append)
    with el [of q "ka + j"] that cB(2) [OF that] show ?thesis by simp
  qed
  have c: "concat (map row [0..<P]) ! (q * (ka + kb + kc) + (ka + kb + j)) = data Cc ! (q * kc + j)"
    if "q < P" "j < kc" for q j
  proof -
    have "row q ! (ka + kb + j) = chunk 3 Cc q ! j"
      unfolding row_def using cA(1) [OF that(1)] cB(1) [OF that(1)] cC(1) [OF that(1)] that(2)
      by (simp add: nth_append)
    with el [of q "ka + kb + j"] that cC(2) [OF that] show ?thesis by simp
  qed
  show ?thesis
  proof (intro exI conjI)
    show "cat [A, B, Cc] 3
      = Inr \<lparr>shape = [b, h, w, ka + kb + kc], data = concat (map row [0..<P])\<rparr>"
      by (rule r)
    show "shape \<lparr>shape = [b, h, w, ka + kb + kc], data = concat (map row [0..<P])\<rparr>
      = [b, h, w, ka + kb + kc]" by simp
    show "\<forall>q < b * h * w.
           (\<forall>j < ka. data \<lparr>shape = [b, h, w, ka + kb + kc], data = concat (map row [0..<P])\<rparr>
                 ! (q * (ka + kb + kc) + j) = data A ! (q * ka + j))
         \<and> (\<forall>j < kb. data \<lparr>shape = [b, h, w, ka + kb + kc], data = concat (map row [0..<P])\<rparr>
                 ! (q * (ka + kb + kc) + (ka + j)) = data B ! (q * kb + j))
         \<and> (\<forall>j < kc. data \<lparr>shape = [b, h, w, ka + kb + kc], data = concat (map row [0..<P])\<rparr>
                 ! (q * (ka + kb + kc) + (ka + kb + j)) = data Cc ! (q * kc + j))"
      using a b c unfolding P_def by simp
  qed
qed

lemma length_decode_box: "length (decode_box fmt dl dt dr db a) = 4"
  by (cases fmt) (simp_all add: decode_box_def Let_def)

lemma dist2bbox_Inr:
  assumes "dist2bbox dm aps fmt = Inr boxes"
  shows "shape dm = [length aps, 4] \<and> shape boxes = [length aps, 4]
     \<and> length (data boxes) = length aps * 4
     \<and> (\<forall>n < length aps. \<forall>j < 4. data boxes ! (n * 4 + j)
          = decode_box fmt (data dm ! (4 * n)) (data dm ! (4 * n + 1)) (data dm ! (4 * n + 2))
              (data dm ! (4 * n + 3)) (aps ! n) ! j)"
proof -
  let ?f = "\<lambda>n. decode_box fmt (data dm ! (4 * n)) (data dm ! (4 * n + 1)) (data dm ! (4 * n + 2))
              (data dm ! (4 * n + 3)) (aps ! n)"
  from assms have s: "shape dm = [length aps, 4]"
    and b: "boxes = \<lparr>shape = [length aps, 4], data = concat (map ?f [0..<length aps])\<rparr>"
    by (auto simp: dist2bbox_def split: if_splits)
  have len: "length (data boxes) = length aps * 4"
    unfolding b using length_concat_map_upt [of "length aps" ?f 4]
    by (simp add: length_decode_box)
  have "data boxes ! (n * 4 + j) = ?f n ! j" if "n < length aps" "j < 4" for n j
    unfolding b tensor.select_convs using that
    by (intro nth_concat_map_upt) (simp_all add: length_decode_box)
  with s b len show ?thesis by simp
qed

lemma eval_branch_Inr:
  assumes "eval_branch d xi i = Inr (co, ro)"
  shows "wf_tensor co \<and> wf_tensor ro"
  using assms unfolding eval_branch_def
  by (auto simp: bind_eq_Inr getitem_eq_Inr dest: call_Inr)

lemma infer_scale_rows:
  assumes "infer_scale d x ap st start i = Inr loc"
  shows "\<exists>b c h w co ro K cls_output reg_output.
      shape (x ! i) = [b, c, h, w] \<and> eval_branch d (x ! i) i = Inr (co, ro)
      \<and> shape co = [b, K, h, w]
      \<and> permute0231 (torch_sigmoid co) = Inr cls_output \<and> permute0231 ro = Inr reg_output
      \<and> scale_anchor_points loc = slice ap start (start + h * w)
      \<and> scale_stride loc = slice st start (start + h * w)
      \<and> length (scale_anchor_points loc) = b * h * w
      \<and> scale_stride loc \<noteq> []
      \<and> shape (scale_output loc) = [b, h, w, 5 + K]
      \<and> (\<forall>q < b * h * w.
            (\<forall>j < 4. data (scale_output loc) ! (q * (5 + K) + j)
                = decode_box XYWH (data reg_output ! (4 * q)) (data reg_output ! (4 * q + 1))
                    (data reg_output ! (4 * q + 2)) (data reg_output ! (4 * q + 3))
                    (scale_anchor_points loc ! q) ! j * (scale_stride loc ! 0))
          \<and> data (scale_output loc) ! (q * (5 + K) + 4) = 1
          \<and> (\<forall>k < K. data (scale_output loc) ! (q * (5 + K) + (5 + k)) = data cls_output ! (q * K + k)))"
proof -
  from infer_scale_Inr [OF assms] obtain b c h w co ro cls_output reg_output distance boxes pred s0
    where sx: "shape (x ! i) = [b, c, h, w]" and eb: "eval_branch d (x ! i) i = Inr (co, ro)"
      and pc: "permute0231 (torch_sigmoid co) = Inr cls_output"
      and pr: "permute0231 ro = Inr reg_output"
      and rr: "reshape_rows4 reg_output = Inr distance"
      and db: "dist2bbox distance (slice ap start (start + h * w)) XYWH = Inr boxes"
      and rb: "reshape boxes [b, h, w, 4] = Inr pred"
      and gs: "getitem (slice st start (start + h * w)) 0 = Inr s0"
      and ct: "cat [imul pred s0, ones [b, h, w, 1], cls_output] 3 = Inr (scale_output loc)"
      and sa: "scale_anchor_points loc = slice ap start (start + h * w)"
      and ss: "scale_stride loc = slice st start (start + h * w)"
    by blast
  define N where "N = length (slice ap start (start + h * w))"
  from dist2bbox_Inr [OF db] have sb: "shape boxes = [N, 4]" and lb: "length (data boxes) = N * 4"
    and eb': "\<forall>n < N. \<forall>j < 4. data boxes ! (n * 4 + j)
          = decode_box XYWH (data distance ! (4 * n)) (data distance ! (4 * n + 1))
              (data distance ! (4 * n + 2)) (data distance ! (4 * n + 3))
              (slice ap start (start + h * w) ! n) ! j"
    unfolding N_def by blast+
  from rr have dd: "data distance = data reg_output"
    by (auto simp: reshape_rows4_def split: if_splits)
  from rb sb have Nb: "N = b * h * w" and pd: "data pred = data boxes" and sp: "shape pred = [b, h, w, 4]"
    by (auto simp: reshape_def numel_def split: if_splits)
  from gs have ne: "slice st start (start + h * w) \<noteq> []" and s0: "s0 = slice st start (start + h * w) ! 0"
    by (auto simp: getitem_eq_Inr)
  from permute0231_Inr [OF pc] obtain b1 K h1 w1 where sco: "shape co = [b1, K, h1, w1]"
    and sc: "shape cls_output = [b1, h1, w1, K]" and lc: "length (data cls_output) = b1 * h1 * w1 * K"
    by auto
  have sA: "shape (imul pred s0) = [b, h, w, 4]" by (simp add: imul_def sp)
  from cat_Inr_shapes [OF ct, of cls_output] sA sc have "b1 = b" "h1 = h" "w1 = w"
    by simp_all
  with sco sc lc have sco': "shape co = [b, K, h, w]" and sc': "shape cls_output = [b, h, w, K]"
    and lc': "length (data cls_output) = (b * h * w) * K" by simp_all
  have lA: "length (data (imul pred s0)) = (b * h * w) * 4" by (simp add: imul_def pd lb Nb)
  have sB: "shape (ones [b, h, w, 1]) = [b, h, w, 1]" by (simp add: ones_def)
  have lB: "length (data (ones [b, h, w, 1])) = (b * h * w) * 1" by (simp add: ones_def mult.assoc)
  from cat_last3 [OF sA sB sc' lA lB lc'] ct
  have so: "shape (scale_output loc) = [b, h, w, 4 + 1 + K]"
    and el: "\<forall>q < b * h * w.
           (\<forall>j < 4. data (scale_output loc) ! (q * (4 + 1 + K) + j) = data (imul pred s0) ! (q * 4 + j))
         \<and> (\<forall>j < 1. data (scale_output loc) ! (q * (4 + 1 + K) + (4 + j))
                = data (ones [b, h, w, 1]) ! (q * 1 + j))
         \<and> (\<forall>j < K. data (scale_output loc) ! (q * (4 + 1 + K) + (4 + 1 + j))
                = data cls_output ! (q * K + j))"
    by auto
  have five: "4 + 1 + K = 5 + K" by simp
  have rows: "(\<forall>j < 4. data (scale_output loc) ! (q * (5 + K) + j)
                = decode_box XYWH (data reg_output ! (4 * q)) (data reg_output ! (4 * q + 1))
                    (data reg_output ! (4 * q + 2)) (data reg_output ! (4 * q + 3))
                    (scale_anchor_points loc ! q) ! j * (scale_stride loc ! 0))
          \<and> data (scale_output loc) ! (q * (5 + K) + 4) = 1
          \<and> (\<forall>k < K. data (scale_output loc) ! (q * (5 + K) + (5 + k)) = data cls_output ! (q * K + k))"
    if q: "q < b * h * w" for q
  proof -
    have box: "data (scale_output loc) ! (q * (5 + K) + j)
        = decode_box XYWH (data reg_output ! (4 * q)) (data reg_output ! (4 * q + 1))
                    (data reg_output ! (4 * q + 2)) (data reg_output ! (4 * q + 3))
                    (scale_anchor_points loc ! q) ! j * (scale_stride loc ! 0)" if j: "j < 4" for j
    proof -
      have "q * 4 + j < (b * h * w) * 4" using q j by (rule index_bound)
      then have "data (imul pred s0) ! (q * 4 + j) = data boxes ! (q * 4 + j) * s0"
        by (simp add: imul_def pd lb Nb)
      moreover from el q j have "data (scale_output loc) ! (q * (5 + K) + j)
          = data (imul pred s0) ! (q * 4 + j)" unfolding five by blast
      moreover from eb' q j Nb have "data boxes ! (q * 4 + j)
          = decode_box XYWH (data distance ! (4 * q)) (data distance ! (4 * q + 1))
              (data distance ! (4 * q + 2)) (data distance ! (4 * q + 3))
              (slice ap start (start + h * w) ! q) ! j" by blast
      ultimately show ?thesis unfolding dd sa ss s0 by simp
    qed
    have one: "data (scale_output loc) ! (q * (5 + K) + 4) = 1"
    proof -
      from el q have "data (scale_output loc) ! (q * (4 + 1 + K) + (4 + 0))
                = data (ones [b, h, w, 1]) ! (q * 1 + 0)" by blast
      moreover have "data (ones [b, h, w, 1]) ! (q * 1 + 0) = 1"
        using q by (simp add: ones_def mult.assoc)
      ultimately show ?thesis by simp
    qed
    have cls: "data (scale_output loc) ! (q * (5 + K) + (5 + k)) = data cls_output ! (q * K + k)"
      if "k < K" for k
    proof -
      from el q that have "data (scale_output loc) ! (q * (4 + 1 + K) + (4 + 1 + k))
                = data cls_output ! (q * K + k)" by blast
      then show ?thesis by simp
    qed
    from box one cls show ?thesis by blast
  qed
  have la: "length (scale_anchor_points loc) = b * h * w" using sa Nb N_def by simp
  have sne: "scale_stride loc \<noteq> []" using ss ne by simp
  from sx eb sco' pc pr sa ss la sne so [unfolded five] rows show ?thesis by blast
qed

section \<open>The output of the inference pass\<close>

lemmas example_defs = example_head_def example_head7_def example_input_def keep_layer_def
  bias_layer_def bias_only_def example_param_def const_map_def

lemmas eval_defs = forward_eval_def forward_eval_locals_def generate_anchors_def area_def
  scale_points_def grid_points_def infer_scale_def eval_branch_def call_def wf_tensor_def
  numel_def permute0231_def torch_sigmoid_def Let_def slice_def reshape_rows4_def
  dist2bbox_def decode_box_def reshape_def imul_def ones_def cat_def chunk_def

lemmas train_defs = forward_train_def train_scale_def train_branch_def flatperm_def
  flatten2_def permute021_def call_def wf_tensor_def numel_def torch_sigmoid_def Let_def
  cat_def chunk_def

lemma replicate_numeral: "replicate (numeral k) x = x # replicate (pred_numeral k) x"
  by (simp add: numeral_eq_Suc)

lemma at4_shape: "shape t = [b, c, h, w] \<Longrightarrow> at4 t i j k l = data t ! (((i * c + j) * h + k) * w + l)"
  by (simp add: at4_def)

lemma at3_shape: "shape t = [b, n, c] \<Longrightarrow> at3 t i j k = data t ! ((i * n + j) * c + k)"
  by (simp add: at3_def)

lemma eval_branch_stride [simp]: "eval_branch (d\<lparr>stride := s\<rparr>) xi i = eval_branch d xi i"
  by (simp add: eval_branch_def)

lemma forward_eval_output:
  assumes f: "forward_eval_locals d x = Inr locs" and i: "i < nat (nl d)"
    and sh: "shape (x ! i) = [b, c, h, w]" and eb: "eval_branch d (x ! i) i = Inr (co, ro)"
    and sro: "shape ro = [b, 4, h, w]"
  shows "\<exists>K. b = 1 \<and> shape co = [1, K, h, w] \<and> shape (scale_output (locs ! i)) = [1, h, w, 5 + K]
     \<and> scale_anchor_points (locs ! i) = grid_points (grid_cell_offset d) h w
     \<and> scale_stride (locs ! i) = replicate (h * w) (real_of_int (stride d ! i))
     \<and> (\<forall>r < h. \<forall>col < w.
          (\<forall>j < 4. at4 (scale_output (locs ! i)) 0 r col j
              = decode_box XYWH (at4 ro 0 0 r col) (at4 ro 0 1 r col) (at4 ro 0 2 r col)
                  (at4 ro 0 3 r col) (real col + grid_cell_offset d, real r + grid_cell_offset d) ! j
                * real_of_int (stride d ! i))
        \<and> at4 (scale_output (locs ! i)) 0 r col 4 = 1
        \<and> (\<forall>k < K. at4 (scale_output (locs ! i)) 0 r col (5 + k) = sigmoid (at4 co 0 k r col)))"
proof -
  let ?off = "grid_cell_offset d"
  let ?o = "sum_list (map area (take i x))"
  from forward_eval_locals_Inr [OF f] obtain ap st where
    g: "generate_anchors x (stride d) (grid_cell_size d) ?off = Inr (ap, st)"
    and le: "nat (nl d) \<le> length x"
    and each: "\<forall>k < nat (nl d). infer_scale d x ap st (sum_list (map area (take k x))) k = Inr (locs ! k)"
    by blast
  from i le have ix: "i < length x" by simp
  from each i have s: "infer_scale d x ap st ?o i = Inr (locs ! i)" by blast
  from sh have ar: "area (x ! i) = h * w" by (rule area_shape)
  from infer_scale_rows [OF s] sh eb obtain K cls_output reg_output where
    sco: "shape co = [b, K, h, w]"
    and pc: "permute0231 (torch_sigmoid co) = Inr cls_output"
    and pr: "permute0231 ro = Inr reg_output"
    and sa: "scale_anchor_points (locs ! i) = slice ap ?o (?o + h * w)"
    and ss: "scale_stride (locs ! i) = slice st ?o (?o + h * w)"
    and la: "length (scale_anchor_points (locs ! i)) = b * h * w"
    and so: "shape (scale_output (locs ! i)) = [b, h, w, 5 + K]"
    and rows: "\<forall>q < b * h * w.
            (\<forall>j < 4. data (scale_output (locs ! i)) ! (q * (5 + K) + j)
                = decode_box XYWH (data reg_output ! (4 * q)) (data reg_output ! (4 * q + 1))
                    (data reg_output ! (4 * q + 2)) (data reg_output ! (4 * q + 3))
                    (scale_anchor_points (locs ! i) ! q) ! j * (scale_stride (locs ! i) ! 0))
          \<and> data (scale_output (locs ! i)) ! (q * (5 + K) + 4) = 1
          \<and> (\<forall>k < K. data (scale_output (locs ! i)) ! (q * (5 + K) + (5 + k)) = data cls_output ! (q * K + k))"
    by auto
  from generate_anchors_slices(1,2) [OF g ix]
  have sa': "scale_anchor_points (locs ! i) = grid_points ?off h w"
    and ss': "scale_stride (locs ! i) = replicate (h * w) (real_of_int (stride d ! i))"
    unfolding ar sa ss by (simp_all add: scale_points_def sh)
  from generate_anchors_Inr [OF g] ix have "0 < area (x ! i)" by simp
  with ar have pos: "0 < h * w" by simp
  have "length (scale_anchor_points (locs ! i)) = h * w"
    unfolding sa' by (rule length_grid_points)
  with la [symmetric] have "b * h * w = h * w" by (rule trans)
  with pos have b1: "b = 1" by auto
  from permute0231_Inr [OF pr] sro b1 have er: "\<forall>r < h. \<forall>col < w. \<forall>k < 4.
          data reg_output ! ((((0 * h + r) * w) + col) * 4 + k) = data ro ! (((0 * 4 + k) * h + r) * w + col)"
    by auto
  from permute0231_Inr [OF pc] sco b1 have ec: "\<forall>r < h. \<forall>col < w. \<forall>k < K.
          data cls_output ! ((((0 * h + r) * w) + col) * K + k)
            = data (torch_sigmoid co) ! (((0 * K + k) * h + r) * w + col)"
    by auto
  from eval_branch_Inr [OF eb] sco b1 have lco: "length (data co) = (K * h) * w"
    by (simp add: wf_tensor_def numel_def mult.assoc)
  have sro1: "shape ro = [1, 4, h, w]" and sco1: "shape co = [1, K, h, w]"
    and so1: "shape (scale_output (locs ! i)) = [1, h, w, 5 + K]"
    using sro sco so b1 by simp_all
  have main: "(\<forall>j < 4. at4 (scale_output (locs ! i)) 0 r col j
              = decode_box XYWH (at4 ro 0 0 r col) (at4 ro 0 1 r col) (at4 ro 0 2 r col)
                  (at4 ro 0 3 r col) (real col + ?off, real r + ?off) ! j
                * real_of_int (stride d ! i))
        \<and> at4 (scale_output (locs ! i)) 0 r col 4 = 1
        \<and> (\<forall>k < K. at4 (scale_output (locs ! i)) 0 r col (5 + k) = sigmoid (at4 co 0 k r col))"
    if r: "r < h" and col: "col < w" for r col
  proof -
    define q where "q = r * w + col"
    have q: "q < h * w" unfolding q_def using r col by (rule index_bound)
    then have qb: "q < b * h * w" using b1 by simp
    have an: "scale_anchor_points (locs ! i) ! q = (real col + ?off, real r + ?off)"
      unfolding sa' q_def using r col by (rule nth_grid_points)
    have st0: "scale_stride (locs ! i) ! 0 = real_of_int (stride d ! i)"
      unfolding ss' using pos by simp
    have ro_el: "data reg_output ! (4 * q + k) = at4 ro 0 k r col" if "k < 4" for k
    proof -
      from er r col that have "data reg_output ! ((((0 * h + r) * w) + col) * 4 + k)
          = data ro ! (((0 * 4 + k) * h + r) * w + col)" by blast
      then show ?thesis unfolding at4_shape [OF sro1] q_def by (simp add: mult.commute)
    qed
    have ro0: "data reg_output ! (4 * q) = at4 ro 0 0 r col" using ro_el [of 0] by simp
    have ro1: "data reg_output ! (4 * q + 1) = at4 ro 0 1 r col" using ro_el [of 1] by simp
    have ro2: "data reg_output ! (4 * q + 2) = at4 ro 0 2 r col" using ro_el [of 2] by simp
    have ro3: "data reg_output ! (4 * q + 3) = at4 ro 0 3 r col" using ro_el [of 3] by simp
    have out_el: "at4 (scale_output (locs ! i)) 0 r col j = data (scale_output (locs ! i)) ! (q * (5 + K) + j)"
      for j
      unfolding at4_shape [OF so1] q_def by simp
    have co_el: "data cls_output ! (q * K + k) = sigmoid (at4 co 0 k r col)" if "k < K" for k
    proof -
      from ec r col that have e: "data cls_output ! ((((0 * h + r) * w) + col) * K + k)
            = data (torch_sigmoid co) ! (((0 * K + k) * h + r) * w + col)" by blast
      have "k * h + r < K * h" using that r by (rule index_bound)
      then have "(k * h + r) * w + col < (K * h) * w" using col by (rule index_bound)
      with lco have "data (torch_sigmoid co) ! ((k * h + r) * w + col)
          = sigmoid (data co ! ((k * h + r) * w + col))" by simp
      with e show ?thesis unfolding at4_shape [OF sco1] q_def by simp
    qed
    from rows qb have R: "(\<forall>j < 4. data (scale_output (locs ! i)) ! (q * (5 + K) + j)
                = decode_box XYWH (data reg_output ! (4 * q)) (data reg_output ! (4 * q + 1))
                    (data reg_output ! (4 * q + 2)) (data reg_output ! (4 * q + 3))
                    (scale_anchor_points (locs ! i) ! q) ! j * (scale_stride (locs ! i) ! 0))
          \<and> data (scale_output (locs ! i)) ! (q * (5 + K) + 4) = 1
          \<and> (\<forall>k < K. data (scale_output (locs ! i)) ! (q * (5 + K) + (5 + k)) = data cls_output ! (q * K + k))"
      by blast
    from R have R': "(\<forall>j < 4. data (scale_output (locs ! i)) ! (q * (5 + K) + j)
                = decode_box XYWH (at4 ro 0 0 r col) (at4 ro 0 1 r col) (at4 ro 0 2 r col)
                    (at4 ro 0 3 r col) (real col + ?off, real r + ?off) ! j
                  * real_of_int (stride d ! i))
          \<and> data (scale_output (locs ! i)) ! (q * (5 + K) + 4) = 1
          \<and> (\<forall>k < K. data (scale_output (locs ! i)) ! (q * (5 + K) + (5 + k)) = data cls_output ! (q * K + k))"
      unfolding ro0 ro1 ro2 ro3 an st0 .
    have cls: "\<forall>k < K. data (scale_output (locs ! i)) ! (q * (5 + K) + (5 + k))
        = sigmoid (at4 co 0 k r col)"
      using R' co_el by simp
    from R' cls show ?thesis unfolding out_el by blast
  qed
  from b1 sco1 so1 sa' ss' main show ?thesis by blast
qed

section \<open>The claims about the forward pass\<close>

lemma forward_eval_Inr:
  "forward_eval d x = Inr outs \<longleftrightarrow>
     (\<exists>locs. forward_eval_locals d x = Inr locs \<and> outs = map scale_output locs)"
  by (auto simp: forward_eval_def bind_eq_Inr)

lemma forward_eval_cls:
  assumes f: "forward_eval_locals d x = Inr locs" and i: "i < nat (nl d)"
  shows "\<exists>b c h w K co ro. shape (x ! i) = [b, c, h, w] \<and> eval_branch d (x ! i) i = Inr (co, ro)
     \<and> shape co = [b, K, h, w] \<and> shape (scale_output (locs ! i)) = [b, h, w, 5 + K]
     \<and> (\<forall>bi < b. \<forall>r < h. \<forall>col < w. \<forall>k < K.
           at4 (scale_output (locs ! i)) bi r col (5 + k) = sigmoid (at4 co bi k r col))"
proof -
  from forward_eval_locals_Inr [OF f] i obtain ap st where
    s: "infer_scale d x ap st (sum_list (map area (take i x))) i = Inr (locs ! i)"
    by blast
  from infer_scale_rows [OF s] obtain b c h w co ro K cls_output where
    sx: "shape (x ! i) = [b, c, h, w]" and eb: "eval_branch d (x ! i) i = Inr (co, ro)"
    and sco: "shape co = [b, K, h, w]"
    and pc: "permute0231 (torch_sigmoid co) = Inr cls_output"
    and so: "shape (scale_output (locs ! i)) = [b, h, w, 5 + K]"
    and rows: "\<forall>q < b * h * w. \<forall>k < K.
        data (scale_output (locs ! i)) ! (q * (5 + K) + (5 + k)) = data cls_output ! (q * K + k)"
    by blast
  from permute0231_Inr [OF pc] sco have ec: "\<forall>bi < b. \<forall>r < h. \<forall>col < w. \<forall>k < K.
          data cls_output ! ((((bi * h + r) * w) + col) * K + k)
            = data (torch_sigmoid co) ! (((bi * K + k) * h + r) * w + col)"
    by auto
  from eval_branch_Inr [OF eb] sco have lco: "length (data co) = ((b * K) * h) * w"
    by (simp add: wf_tensor_def numel_def mult.assoc)
  have "at4 (scale_output (locs ! i)) bi r col (5 + k) = sigmoid (at4 co bi k r col)"
    if bi: "bi < b" and r: "r < h" and col: "col < w" and k: "k < K" for bi r col k
  proof -
    have "bi * h + r < b * h" using bi r by (rule index_bound)
    then have q: "(bi * h + r) * w + col < b * h * w" using col by (rule index_bound)
    have "bi * K + k < b * K" using bi k by (rule index_bound)
    then have "(bi * K + k) * h + r < (b * K) * h" using r by (rule index_bound)
    then have "((bi * K + k) * h + r) * w + col < ((b * K) * h) * w" using col by (rule index_bound)
    with lco have sg: "data (torch_sigmoid co) ! (((bi * K + k) * h + r) * w + col)
        = sigmoid (data co ! (((bi * K + k) * h + r) * w + col))" by simp
    from rows q k have "data (scale_output (locs ! i)) ! (((bi * h + r) * w + col) * (5 + K) + (5 + k))
        = data cls_output ! (((bi * h + r) * w + col) * K + k)" by blast
    also from ec bi r col k have "\<dots> = data (torch_sigmoid co) ! (((bi * K + k) * h + r) * w + col)"
      by blast
    finally show ?thesis unfolding at4_shape [OF so] at4_shape [OF sco] sg .
  qed
  with sx eb sco so show ?thesis by blast
qed

lemma forward_train_cls_values:
  assumes "forward_train d x = Inr (x', cls, distri, lrtb)" and "v \<in> set (data cls)"
  shows "\<exists>i < nat (nl d). \<exists>f co ro rl.
           train_branch d (x ! i) i = Inr (f, co, ro, rl) \<and> v \<in> sigmoid ` set (data co)"
proof -
  from forward_train_Inr [OF assms(1)] obtain cl dl ll
    where loop: "train_loop d (x, [], [], []) [0..<nat (nl d)] = Inr (x', cl, dl, ll)"
      and ct: "cat cl 1 = Inr cls"
    by blast
  from train_loop_upt [OF loop] have len: "length cl = nat (nl d)"
    and each: "\<forall>k < nat (nl d). \<exists>f co ro rl. train_branch d (x ! k) k = Inr (f, co, ro, rl)
                 \<and> flatperm (torch_sigmoid co) = Inr (cl ! k)"
    by blast+
  from cat_data_subset [OF ct] assms(2) obtain t where "t \<in> set cl" "v \<in> set (data t)" by auto
  then obtain k where k: "k < nat (nl d)" and v: "v \<in> set (data (cl ! k))"
    using len by (auto simp: in_set_conv_nth)
  from each k obtain f co ro rl where tb: "train_branch d (x ! k) k = Inr (f, co, ro, rl)"
    and fp: "flatperm (torch_sigmoid co) = Inr (cl ! k)" by blast
  from train_branch_Inr [OF tb] have "wf_tensor (torch_sigmoid co)"
    by (simp add: wf_torch_sigmoid)
  from flatperm_set [OF fp this] v have "v \<in> sigmoid ` set (data co)" by auto
  with k tb show ?thesis by blast
qed

text \<open>
  C5. In training mode every returned classification value is the sigmoid of a logit of
  some scale's classification projection, so it lies in \<open>[0, 1]\<close>, and every
  returned regression value (distribution form and direct form) is literally a value
  of some scale's regression projection: no activation is applied to it. In inference
  mode the output has one tensor per scale, of shape \<open>(b, h, w, 5 + K)\<close>, whose
  entry \<open>5 + k\<close> at each position is the sigmoid of the logit of class \<open>k\<close> at
  that position, and lies in \<open>[0, 1]\<close>. Element values are real numbers.
\<close>

theorem classification_sigmoid_range:
  "(forward_train d x = Inr (x', cls, distri, lrtb) \<longrightarrow>
      (\<forall>v \<in> set (data cls). 0 \<le> v \<and> v \<le> 1
          \<and> (\<exists>i < nat (nl d). \<exists>f co ro rl.
                train_branch d (x ! i) i = Inr (f, co, ro, rl) \<and> v \<in> sigmoid ` set (data co)))
    \<and> (\<forall>v \<in> set (data distri). \<exists>i < nat (nl d). \<exists>f co ro rl.
           train_branch d (x ! i) i = Inr (f, co, ro, rl) \<and> v \<in> set (data ro))
    \<and> (\<forall>v \<in> set (data lrtb). \<exists>i < nat (nl d). \<exists>f co ro rl.
           train_branch d (x ! i) i = Inr (f, co, ro, rl) \<and> v \<in> set (data rl)))
   \<and> (forward_eval d x = Inr outs \<longrightarrow>
        length outs = nat (nl d)
      \<and> (\<forall>i < nat (nl d). \<exists>b c h w K co ro.
            shape (x ! i) = [b, c, h, w] \<and> eval_branch d (x ! i) i = Inr (co, ro)
          \<and> shape co = [b, K, h, w] \<and> shape (outs ! i) = [b, h, w, 5 + K]
          \<and> (\<forall>bi < b. \<forall>r < h. \<forall>col < w. \<forall>k < K.
                at4 (outs ! i) bi r col (5 + k) = sigmoid (at4 co bi k r col)
              \<and> 0 \<le> at4 (outs ! i) bi r col (5 + k) \<and> at4 (outs ! i) bi r col (5 + k) \<le> 1)))"
proof (intro conjI impI)
  assume t: "forward_train d x = Inr (x', cls, distri, lrtb)"
  show "\<forall>v \<in> set (data cls). 0 \<le> v \<and> v \<le> 1
          \<and> (\<exists>i < nat (nl d). \<exists>f co ro rl.
                train_branch d (x ! i) i = Inr (f, co, ro, rl) \<and> v \<in> sigmoid ` set (data co))"
  proof
    fix v assume v: "v \<in> set (data cls)"
    from forward_train_values [OF t] v have "0 < v \<and> v < 1" by blast
    with forward_train_cls_values [OF t v] show "0 \<le> v \<and> v \<le> 1
          \<and> (\<exists>i < nat (nl d). \<exists>f co ro rl.
                train_branch d (x ! i) i = Inr (f, co, ro, rl) \<and> v \<in> sigmoid ` set (data co))"
      by simp
  qed
  from forward_train_values [OF t]
  show "\<forall>v \<in> set (data distri). \<exists>i < nat (nl d). \<exists>f co ro rl.
           train_branch d (x ! i) i = Inr (f, co, ro, rl) \<and> v \<in> set (data ro)"
    by blast
  from forward_train_values [OF t]
  show "\<forall>v \<in> set (data lrtb). \<exists>i < nat (nl d). \<exists>f co ro rl.
           train_branch d (x ! i) i = Inr (f, co, ro, rl) \<and> v \<in> set (data rl)"
    by blast
next
  assume e: "forward_eval d x = Inr outs"
  then obtain locs where f: "forward_eval_locals d x = Inr locs" and o: "outs = map scale_output locs"
    unfolding forward_eval_Inr by blast
  from forward_eval_locals_Inr [OF f] have len: "length locs = nat (nl d)" by blast
  with o show "length outs = nat (nl d)" by simp
  show "\<forall>i < nat (nl d). \<exists>b c h w K co ro.
            shape (x ! i) = [b, c, h, w] \<and> eval_branch d (x ! i) i = Inr (co, ro)
          \<and> shape co = [b, K, h, w] \<and> shape (outs ! i) = [b, h, w, 5 + K]
          \<and> (\<forall>bi < b. \<forall>r < h. \<forall>col < w. \<forall>k < K.
                at4 (outs ! i) bi r col (5 + k) = sigmoid (at4 co bi k r col)
              \<and> 0 \<le> at4 (outs ! i) bi r col (5 + k) \<and> at4 (outs ! i) bi r col (5 + k) \<le> 1)"
  proof (intro allI impI)
    fix i assume i: "i < nat (nl d)"
    with len o have oi: "outs ! i = scale_output (locs ! i)" by simp
    from forward_eval_cls [OF f i] obtain b c h w K co ro where
      a: "shape (x ! i) = [b, c, h, w]" "eval_branch d (x ! i) i = Inr (co, ro)"
         "shape co = [b, K, h, w]" "shape (scale_output (locs ! i)) = [b, h, w, 5 + K]"
      and el: "\<forall>bi < b. \<forall>r < h. \<forall>col < w. \<forall>k < K.
           at4 (scale_output (locs ! i)) bi r col (5 + k) = sigmoid (at4 co bi k r col)"
      by blast
    have "at4 (outs ! i) bi r col (5 + k) = sigmoid (at4 co bi k r col)
              \<and> 0 \<le> at4 (outs ! i) bi r col (5 + k) \<and> at4 (outs ! i) bi r col (5 + k) \<le> 1"
      if "bi < b" "r < h" "col < w" "k < K" for bi r col k
    proof -
      from el that have "at4 (outs ! i) bi r col (5 + k) = sigmoid (at4 co bi k r col)"
        unfolding oi by blast
      with sigmoid_range [of "at4 co bi k r col"] show ?thesis by simp
    qed
    with a show "\<exists>b c h w K co ro.
            shape (x ! i) = [b, c, h, w] \<and> eval_branch d (x ! i) i = Inr (co, ro)
          \<and> shape co = [b, K, h, w] \<and> shape (outs ! i) = [b, h, w, 5 + K]
          \<and> (\<forall>bi < b. \<forall>r < h. \<forall>col < w. \<forall>k < K.
                at4 (outs ! i) bi r col (5 + k) = sigmoid (at4 co bi k r col)
              \<and> 0 \<le> at4 (outs ! i) bi r col (5 + k) \<and> at4 (outs ! i) bi r col (5 + k) \<le> 1)"
      unfolding oi by blast
  qed
qed

text \<open>
  C4. In a successful inference pass, for the box decoded at row \<open>r\<close> and column
  \<open>col\<close> of scale \<open>i\<close> (the regression projection giving 4 channels): the entry
  of the stride sequence that belongs to this box's anchor is the stride configured for
  scale \<open>i\<close>; every coordinate \<open>j\<close> of the box in the output is the decoded
  coordinate times that entry; and with any other stride list the same coordinate
  scales by the ratio of the two strides of scale \<open>i\<close>.
\<close>

theorem forward_eval_stride_scaling:
  assumes f: "forward_eval_locals d x = Inr locs" and i: "i < nat (nl d)"
    and sh: "shape (x ! i) = [b, c, h, w]" and eb: "eval_branch d (x ! i) i = Inr (co, ro)"
    and sro: "shape ro = [b, 4, h, w]" and r: "r < h" and col: "col < w" and j: "j < 4"
  shows "scale_stride (locs ! i) ! (r * w + col) = real_of_int (stride d ! i)
     \<and> at4 (scale_output (locs ! i)) 0 r col j
         = decode_box XYWH (at4 ro 0 0 r col) (at4 ro 0 1 r col) (at4 ro 0 2 r col)
             (at4 ro 0 3 r col) (scale_anchor_points (locs ! i) ! (r * w + col)) ! j
           * scale_stride (locs ! i) ! (r * w + col)
     \<and> (\<forall>s' locs'. forward_eval_locals (d\<lparr>stride := s'\<rparr>) x = Inr locs' \<longrightarrow>
           at4 (scale_output (locs' ! i)) 0 r col j * real_of_int (stride d ! i)
             = at4 (scale_output (locs ! i)) 0 r col j * real_of_int (s' ! i))"
proof -
  let ?box = "decode_box XYWH (at4 ro 0 0 r col) (at4 ro 0 1 r col) (at4 ro 0 2 r col)
     (at4 ro 0 3 r col) (real col + grid_cell_offset d, real r + grid_cell_offset d) ! j"
  have q: "r * w + col < h * w" using r col by (rule index_bound)
  from forward_eval_output [OF f i sh eb sro] r col j
  have an: "scale_anchor_points (locs ! i) = grid_points (grid_cell_offset d) h w"
    and st: "scale_stride (locs ! i) = replicate (h * w) (real_of_int (stride d ! i))"
    and el: "at4 (scale_output (locs ! i)) 0 r col j = ?box * real_of_int (stride d ! i)"
    by blast+
  have a: "scale_stride (locs ! i) ! (r * w + col) = real_of_int (stride d ! i)"
    unfolding st using q by simp
  have p: "scale_anchor_points (locs ! i) ! (r * w + col)
      = (real col + grid_cell_offset d, real r + grid_cell_offset d)"
    unfolding an using r col by (rule nth_grid_points)
  have b: "at4 (scale_output (locs ! i)) 0 r col j
         = decode_box XYWH (at4 ro 0 0 r col) (at4 ro 0 1 r col) (at4 ro 0 2 r col)
             (at4 ro 0 3 r col) (scale_anchor_points (locs ! i) ! (r * w + col)) ! j
           * scale_stride (locs ! i) ! (r * w + col)"
    unfolding a p by (rule el)
  have c: "at4 (scale_output (locs' ! i)) 0 r col j * real_of_int (stride d ! i)
             = at4 (scale_output (locs ! i)) 0 r col j * real_of_int (s' ! i)"
    if f': "forward_eval_locals (d\<lparr>stride := s'\<rparr>) x = Inr locs'" for s' locs'
  proof -
    have i': "i < nat (nl (d\<lparr>stride := s'\<rparr>))" using i by simp
    have eb': "eval_branch (d\<lparr>stride := s'\<rparr>) (x ! i) i = Inr (co, ro)" using eb by simp
    have "at4 (scale_output (locs' ! i)) 0 r col j = ?box * real_of_int (s' ! i)"
      using forward_eval_output [OF f' i' sh eb' sro] r col j by auto
    with el show ?thesis by simp
  qed
  from a b c show ?thesis by blast
qed

text \<open>
  C10. In training mode a successful forward pass returns the address \<open>x\<close> of the
  caller's list as the first component of its result, and in the store the slots
  \<open>i < nl\<close> of that list hold the stem's output for the old slot \<open>i\<close>, the other
  slots and the other lists being unchanged. In inference mode the store is unchanged.
\<close>

theorem forward_list_aliasing:
  "(training d \<and> forward d s x = Inr (s', out) \<longrightarrow>
      (\<exists>cls distri lrtb. out = TrainOut x cls distri lrtb)
    \<and> length (s' x) = length (s x)
    \<and> (\<forall>i < nat (nl d). call (stems d ! i) (s x ! i) = Inr (s' x ! i))
    \<and> (\<forall>i. \<not> i < nat (nl d) \<longrightarrow> s' x ! i = s x ! i)
    \<and> (\<forall>a. a \<noteq> x \<longrightarrow> s' a = s a))
   \<and> (\<not> training d \<and> forward d s x = Inr (s', out) \<longrightarrow>
        s' = s \<and> (\<exists>outputs. out = EvalOut outputs))"
proof (intro conjI impI)
  assume a: "training d \<and> forward d s x = Inr (s', out)"
  then obtain x' cls distri lrtb where t: "forward_train d (s x) = Inr (x', cls, distri, lrtb)"
    and s': "s' = s(x := x')" and o: "out = TrainOut x cls distri lrtb"
    by (auto simp: forward_def bind_eq_Inr)
  from o show "\<exists>cls distri lrtb. out = TrainOut x cls distri lrtb" by blast
  from forward_train_slots [OF t] s' show "length (s' x) = length (s x)" by simp
  from forward_train_slots [OF t] s'
  show "\<forall>i < nat (nl d). call (stems d ! i) (s x ! i) = Inr (s' x ! i)" by simp
  from forward_train_slots [OF t] s'
  show "\<forall>i. \<not> i < nat (nl d) \<longrightarrow> s' x ! i = s x ! i" by simp
  from s' show "\<forall>a. a \<noteq> x \<longrightarrow> s' a = s a" by simp
next
  assume a: "\<not> training d \<and> forward d s x = Inr (s', out)"
  then show "s' = s" by (auto simp: forward_def bind_eq_Inr)
  from a show "\<exists>outputs. out = EvalOut outputs" by (auto simp: forward_def bind_eq_Inr)
qed

text \<open>
  C3. In training mode, for \<open>nl \<ge> 1\<close> feature maps of batch size \<open>b\<close> whose
  layers give \<open>num_classes\<close>, \<open>4 * (reg_max + 1)\<close> and \<open>4\<close> channels at unchanged
  batch and spatial size, the forward pass returns three tensors of shapes
  \<open>(b, total, num_classes)\<close>, \<open>(b, total, 4 * (reg_max + 1))\<close> and
  \<open>(b, total, 4)\<close> with \<open>total\<close> the sum of \<open>h\<^sub>i * w\<^sub>i\<close>. The rows of scale
  \<open>i\<close> start at the sum of the areas of the scales before it, the anchor order of
  the grid, and row \<open>r * w + col\<close> of the block holds the channels of position
  \<open>(r, col)\<close>: the sigmoid of the logits, and the regression outputs as they are.
\<close>

theorem forward_train_shapes:
  assumes n: "0 < nat (nl d)" and lx: "length x = nat (nl d)"
    and contract: "\<forall>i < nat (nl d). \<exists>c h w f co ro rl.
        shape (x ! i) = [b, c, h, w] \<and> train_branch d (x ! i) i = Inr (f, co, ro, rl)
        \<and> shape co = [b, nat (nc d), h, w] \<and> shape ro = [b, 4 * (reg_max d + 1), h, w]
        \<and> shape rl = [b, 4, h, w]"
  shows "\<exists>x' cls distri lrtb. forward_train d x = Inr (x', cls, distri, lrtb)
     \<and> shape cls = [b, sum_list (map area x), nat (nc d)]
     \<and> shape distri = [b, sum_list (map area x), 4 * (reg_max d + 1)]
     \<and> shape lrtb = [b, sum_list (map area x), 4]
     \<and> (\<forall>i < nat (nl d). \<forall>c h w f co ro rl.
          shape (x ! i) = [b, c, h, w] \<and> train_branch d (x ! i) i = Inr (f, co, ro, rl) \<longrightarrow>
          (\<forall>bi < b. \<forall>r < h. \<forall>col < w.
             (\<forall>k < nat (nc d). at3 cls bi (sum_list (map area (take i x)) + (r * w + col)) k
                          = sigmoid (at4 co bi k r col))
           \<and> (\<forall>k < 4 * (reg_max d + 1). at3 distri bi (sum_list (map area (take i x)) + (r * w + col)) k
                          = at4 ro bi k r col)
           \<and> (\<forall>k < 4. at3 lrtb bi (sum_list (map area (take i x)) + (r * w + col)) k
                          = at4 rl bi k r col)))"
proof -
  let ?C = "nat (nc d)" and ?D = "4 * (reg_max d + 1)"
  let ?T = "sum_list (map area x)"
  let ?O = "\<lambda>i. sum_list (map area (take i x))"
  from forward_train_ok [OF n lx contract] obtain x' cls distri lrtb where
    fw: "forward_train d x = Inr (x', cls, distri, lrtb)"
    and s1: "shape cls = [b, ?T, ?C]" and s2: "shape distri = [b, ?T, ?D]"
    and s3: "shape lrtb = [b, ?T, 4]"
    and el: "\<forall>i < nat (nl d). \<forall>f co ro rl. train_branch d (x ! i) i = Inr (f, co, ro, rl) \<longrightarrow>
          (\<forall>bi < b. \<forall>p < area (x ! i).
             (\<forall>k < ?C. data cls ! ((bi * ?T + ?O i + p) * ?C + k)
                          = sigmoid (data co ! ((bi * ?C + k) * area (x ! i) + p)))
           \<and> (\<forall>k < ?D. data distri ! ((bi * ?T + ?O i + p) * ?D + k)
                          = data ro ! ((bi * ?D + k) * area (x ! i) + p))
           \<and> (\<forall>k < 4. data lrtb ! ((bi * ?T + ?O i + p) * 4 + k)
                          = data rl ! ((bi * 4 + k) * area (x ! i) + p)))"
    by blast
  have main: "(\<forall>k < ?C. at3 cls bi (?O i + (r * w + col)) k = sigmoid (at4 co bi k r col))
           \<and> (\<forall>k < ?D. at3 distri bi (?O i + (r * w + col)) k = at4 ro bi k r col)
           \<and> (\<forall>k < 4. at3 lrtb bi (?O i + (r * w + col)) k = at4 rl bi k r col)"
    if i: "i < nat (nl d)" and sx: "shape (x ! i) = [b, c, h, w]"
      and tb: "train_branch d (x ! i) i = Inr (f, co, ro, rl)"
      and bi: "bi < b" and r: "r < h" and col: "col < w" for i c h w f co ro rl bi r col
  proof -
    from contract i sx tb have sco: "shape co = [b, ?C, h, w]" and sro: "shape ro = [b, ?D, h, w]"
      and srl: "shape rl = [b, 4, h, w]" by auto
    from sx have ar: "area (x ! i) = h * w" by (rule area_shape)
    have p: "r * w + col < area (x ! i)" unfolding ar using r col by (rule index_bound)
    have ix: "(bi * K + k) * (h * w) + (r * w + col) = ((bi * K + k) * h + r) * w + col" for K k
      by (simp add: algebra_simps)
    have io: "(bi * ?T + (?O i + (r * w + col))) = bi * ?T + ?O i + (r * w + col)" by simp
    from el i tb bi p have
      "(\<forall>k < ?C. data cls ! ((bi * ?T + ?O i + (r * w + col)) * ?C + k)
                          = sigmoid (data co ! ((bi * ?C + k) * area (x ! i) + (r * w + col))))
           \<and> (\<forall>k < ?D. data distri ! ((bi * ?T + ?O i + (r * w + col)) * ?D + k)
                          = data ro ! ((bi * ?D + k) * area (x ! i) + (r * w + col)))
           \<and> (\<forall>k < 4. data lrtb ! ((bi * ?T + ?O i + (r * w + col)) * 4 + k)
                          = data rl ! ((bi * 4 + k) * area (x ! i) + (r * w + col)))"
      by blast
    then show ?thesis
      unfolding at3_shape [OF s1] at3_shape [OF s2] at3_shape [OF s3]
        at4_shape [OF sco] at4_shape [OF sro] at4_shape [OF srl] ar ix io .
  qed
  from fw s1 s2 s3 main show ?thesis by blast
qed

section \<open>The example configuration at work\<close>

lemma example_eval_locals:
  "\<exists>locs. forward_eval_locals example_head (example_input 1) = Inr locs"
  by (simp add: eval_defs example_defs upt_rec replicate_numeral)

lemma example_eval_locals16:
  "\<exists>locs. forward_eval_locals (example_head\<lparr>stride := [16, 32, 64]\<rparr>) (example_input 1) = Inr locs"
  by (simp add: eval_defs example_defs upt_rec replicate_numeral)

lemma example_eval_branch0:
  "eval_branch example_head (example_input 1 ! 0) 0
     = Inr (const_map 1 [0] 2 2, const_map 1 [1, 2, 3, 4] 2 2)"
  by (simp add: eval_defs example_defs replicate_numeral)

lemma example_areas: "map area (example_input b) = [4, 2, 1]"
  by (simp add: example_defs area_def)

lemma example_nl: "nat (nl example_head) = 3" "length (example_input b) = 3"
  by (simp_all add: example_defs)

text \<open>
  C2. The claim is that the inference pass returns, for every batch size \<open>b\<close>, one
  tensor of shape \<open>(b, h, w, 4 + 1 + num_classes)\<close> per scale. With three feature
  maps of batch size 2 the pass raises: the regression output is reshaped to
  \<open>2 * h * w\<close> distance vectors, the slice of the anchor set has \<open>h * w\<close> points,
  and the box decoder takes as many points as vectors.
\<close>

theorem forward_eval_batch_two_fails:
  "forward_eval example_head (example_input 2) = Inl RuntimeError"
  by (simp add: eval_defs example_defs upt_rec replicate_numeral)

theorem forward_eval_slices_witness:
  "\<exists>locs. forward_eval_locals example_head (example_input 1) = Inr locs \<and> length locs = 3
     \<and> start_idx (locs ! 0) = 0 \<and> end_idx (locs ! 0) = 4
     \<and> start_idx (locs ! 1) = 4 \<and> end_idx (locs ! 1) = 6
     \<and> start_idx (locs ! 2) = 6 \<and> end_idx (locs ! 2) = 7
     \<and> length (scale_anchor_points (locs ! 0)) = 4
     \<and> length (scale_anchor_points (locs ! 1)) = 2
     \<and> length (scale_anchor_points (locs ! 2)) = 1
     \<and> length (concat (map scale_anchor_points locs)) = 7
     \<and> length (concat (map scale_stride locs)) = 7"
proof -
  from example_eval_locals obtain locs
    where l: "forward_eval_locals example_head (example_input 1) = Inr locs" by blast
  have lx: "length (example_input 1) = nat (nl example_head)" by (simp add: example_nl)
  note T = forward_eval_slices [OF l lx, unfolded example_nl]
  from T have len: "length locs = 3" by blast
  from T have each: "\<forall>i < 3. start_idx (locs ! i) = sum_list (map area (take i (example_input 1)))
         \<and> end_idx (locs ! i) = start_idx (locs ! i) + area (example_input 1 ! i)
         \<and> length (scale_anchor_points (locs ! i)) = area (example_input 1 ! i)"
    by blast
  from T have tot: "length (concat (map scale_anchor_points locs)) = sum_list (map area (example_input 1))"
    "length (concat (map scale_stride locs)) = sum_list (map area (example_input 1))"
    by auto
  have a: "area (example_input 1 ! 0) = 4" "area (example_input 1 ! 1) = 2"
    "area (example_input 1 ! 2) = 1"
    by (simp_all add: example_defs area_def)
  have t: "map area (take 0 (example_input 1)) = []" "map area (take 1 (example_input 1)) = [4]"
    "map area (take 2 (example_input 1)) = [4, 2]"
    by (simp_all add: example_defs area_def)
  from each have e0: "start_idx (locs ! 0) = 0 \<and> end_idx (locs ! 0) = 4
      \<and> length (scale_anchor_points (locs ! 0)) = 4"
    using a t by simp
  from each have "1 < (3::nat) \<longrightarrow> start_idx (locs ! 1) = sum_list (map area (take 1 (example_input 1)))
         \<and> end_idx (locs ! 1) = start_idx (locs ! 1) + area (example_input 1 ! 1)
         \<and> length (scale_anchor_points (locs ! 1)) = area (example_input 1 ! 1)" by blast
  then have e1: "start_idx (locs ! 1) = 4 \<and> end_idx (locs ! 1) = 6
      \<and> length (scale_anchor_points (locs ! 1)) = 2"
    using a t by simp
  from each have "2 < (3::nat) \<longrightarrow> start_idx (locs ! 2) = sum_list (map area (take 2 (example_input 1)))
         \<and> end_idx (locs ! 2) = start_idx (locs ! 2) + area (example_input 1 ! 2)
         \<and> length (scale_anchor_points (locs ! 2)) = area (example_input 1 ! 2)" by blast
  then have e2: "start_idx (locs ! 2) = 6 \<and> end_idx (locs ! 2) = 7
      \<and> length (scale_anchor_points (locs ! 2)) = 1"
    using a t by simp
  from tot have tot': "length (concat (map scale_anchor_points locs)) = 7"
    "length (concat (map scale_stride locs)) = 7"
    unfolding example_areas by simp_all
  from l len e0 e1 e2 tot' show ?thesis by blast
qed

theorem forward_eval_stride_scaling_witness:
  "\<exists>locs locs'. forward_eval_locals example_head (example_input 1) = Inr locs
     \<and> forward_eval_locals (example_head\<lparr>stride := [16, 32, 64]\<rparr>) (example_input 1) = Inr locs'
     \<and> scale_stride (locs ! 0) ! 3 = 8
     \<and> at4 (scale_output (locs ! 0)) 0 1 1 2
          = decode_box XYWH 1 2 3 4 (scale_anchor_points (locs ! 0) ! 3) ! 2 * scale_stride (locs ! 0) ! 3
     \<and> at4 (scale_output (locs' ! 0)) 0 1 1 2 * 8 = at4 (scale_output (locs ! 0)) 0 1 1 2 * 16"
proof -
  from example_eval_locals obtain locs
    where l: "forward_eval_locals example_head (example_input 1) = Inr locs" by blast
  from example_eval_locals16 obtain locs'
    where l': "forward_eval_locals (example_head\<lparr>stride := [16, 32, 64]\<rparr>) (example_input 1) = Inr locs'"
    by blast
  have i: "0 < nat (nl example_head)" by (simp add: example_nl)
  have sh: "shape (example_input 1 ! 0) = [1, 1, 2, 2]" by (simp add: example_defs)
  have sro: "shape (const_map 1 [1, 2, 3, 4] 2 2) = [1, 4, 2, 2]" by (simp add: const_map_def)
  have r: "(1::nat) < 2" and j: "(2::nat) < 4" by simp_all
  note T = forward_eval_stride_scaling [OF l i sh example_eval_branch0 sro r r j]
  have ro: "at4 (const_map 1 [1, 2, 3, 4] 2 2) 0 0 1 1 = 1" "at4 (const_map 1 [1, 2, 3, 4] 2 2) 0 1 1 1 = 2"
    "at4 (const_map 1 [1, 2, 3, 4] 2 2) 0 2 1 1 = 3" "at4 (const_map 1 [1, 2, 3, 4] 2 2) 0 3 1 1 = 4"
    by (simp_all add: at4_def const_map_def replicate_numeral)
  have s: "real_of_int (stride example_head ! 0) = 8" by (simp add: example_head_def)
  from T have a: "scale_stride (locs ! 0) ! 3 = 8" unfolding s by simp
  from T have b: "at4 (scale_output (locs ! 0)) 0 1 1 2
          = decode_box XYWH 1 2 3 4 (scale_anchor_points (locs ! 0) ! 3) ! 2 * scale_stride (locs ! 0) ! 3"
    unfolding ro by simp
  from T l' have "at4 (scale_output (locs' ! 0)) 0 1 1 2 * real_of_int (stride example_head ! 0)
      = at4 (scale_output (locs ! 0)) 0 1 1 2 * real_of_int ([16, 32, 64] ! 0)" by blast
  then have c: "at4 (scale_output (locs' ! 0)) 0 1 1 2 * 8 = at4 (scale_output (locs ! 0)) 0 1 1 2 * 16"
    unfolding s by simp
  from l l' a b c show ?thesis by blast
qed

lemma length_const_rows: "length (concat (map (replicate m) vs)) = length vs * m"
  by (induction vs) simp_all

lemma length_concat_replicate: "length (concat (replicate n xs)) = n * length xs"
  by (induction n) simp_all

lemma wf_const_map: "wf_tensor (const_map b vs h w)"
  by (simp add: wf_tensor_def numel_def const_map_def length_concat_replicate length_const_rows)

lemma call_keep_layer: "wf_tensor t \<Longrightarrow> call keep_layer t = Inr t"
  by (simp add: call_def keep_layer_def)

lemma call_bias_layer:
  "shape t = [b, c, h, w] \<Longrightarrow> call (bias_layer vs) t = Inr (const_map b vs h w)"
  by (simp add: call_def bias_layer_def bias_only_def example_param_def wf_const_map)

lemma shape_const_map [simp]: "shape (const_map b vs h w) = [b, length vs, h, w]"
  by (simp add: const_map_def)

lemma example_train_branch:
  assumes "i < 3"
  shows "train_branch example_head (const_map b [0] h w) i
     = Inr (const_map b [0] h w, const_map b [0] h w, const_map b [0, 0, 0, 0, 0, 0, 0, 0] h w,
            const_map b [1, 2, 3, 4] h w)"
proof -
  from assms have "i = 0 \<or> i = 1 \<or> i = 2" by arith
  then show ?thesis
  proof (elim disjE)
    assume "i = 0"
    then show ?thesis
      by (simp add: train_branch_def example_head_def call_keep_layer wf_const_map
        call_bias_layer [of _ b 1 h w])
  next
    assume "i = 1"
    then show ?thesis
      by (simp add: train_branch_def example_head_def call_keep_layer wf_const_map
        call_bias_layer [of _ b 1 h w])
  next
    assume "i = 2"
    then show ?thesis
      by (simp add: train_branch_def example_head_def call_keep_layer wf_const_map
        call_bias_layer [of _ b 1 h w])
  qed
qed

lemma example_train_branch7:
  assumes "i < 3"
  shows "train_branch example_head7 (const_map b [0] h w) i
     = Inr (const_map b [7] h w, const_map b [0] h w, const_map b [0, 0, 0, 0, 0, 0, 0, 0] h w,
            const_map b [1, 2, 3, 4] h w)"
proof -
  from assms have "i = 0 \<or> i = 1 \<or> i = 2" by arith
  then show ?thesis
  proof (elim disjE)
    assume "i = 0"
    then show ?thesis
      by (simp add: train_branch_def example_head7_def example_head_def call_keep_layer wf_const_map
        call_bias_layer [of _ b 1 h w])
  next
    assume "i = 1"
    then show ?thesis
      by (simp add: train_branch_def example_head7_def example_head_def call_keep_layer wf_const_map
        call_bias_layer [of _ b 1 h w])
  next
    assume "i = 2"
    then show ?thesis
      by (simp add: train_branch_def example_head7_def example_head_def call_keep_layer wf_const_map
        call_bias_layer [of _ b 1 h w])
  qed
qed

lemma example_contract:
  assumes tb: "\<And>i h w. i < 3 \<Longrightarrow> \<exists>f. train_branch d (const_map b [0] h w) i
       = Inr (f, const_map b [0] h w, const_map b [0, 0, 0, 0, 0, 0, 0, 0] h w,
              const_map b [1, 2, 3, 4] h w)"
    and x: "\<And>i. i < 3 \<Longrightarrow> \<exists>h w. x ! i = const_map b [0] h w"
    and n: "nat (nl d) = 3"
  shows "\<forall>i < nat (nl d). \<exists>c h w f co ro rl.
        shape (x ! i) = [b, c, h, w] \<and> train_branch d (x ! i) i = Inr (f, co, ro, rl)
        \<and> shape co = [b, 1, h, w] \<and> shape ro = [b, 8, h, w] \<and> shape rl = [b, 4, h, w]"
proof (intro allI impI)
  fix i :: nat assume "i < nat (nl d)"
  then have i: "i < 3" using n by simp
  from x [OF i] obtain h w where xi: "x ! i = const_map b [0] h w" by blast
  from tb [OF i, of h w] obtain f where t: "train_branch d (const_map b [0] h w) i
       = Inr (f, const_map b [0] h w, const_map b [0, 0, 0, 0, 0, 0, 0, 0] h w,
              const_map b [1, 2, 3, 4] h w)" by blast
  have a: "shape (x ! i) = [b, 1, h, w]" unfolding xi by simp
  have b: "train_branch d (x ! i) i
       = Inr (f, const_map b [0] h w, const_map b [0, 0, 0, 0, 0, 0, 0, 0] h w,
              const_map b [1, 2, 3, 4] h w)" unfolding xi by (rule t)
  have c: "shape (const_map b [0] h w) = [b, 1, h, w]"
    "shape (const_map b [0, 0, 0, 0, 0, 0, 0, 0] h w) = [b, 8, h, w]"
    "shape (const_map b [1, 2, 3, 4] h w) = [b, 4, h, w]" by simp_all
  show "\<exists>c h w f co ro rl.
        shape (x ! i) = [b, c, h, w] \<and> train_branch d (x ! i) i = Inr (f, co, ro, rl)
        \<and> shape co = [b, 1, h, w] \<and> shape ro = [b, 8, h, w] \<and> shape rl = [b, 4, h, w]"
    by (intro exI conjI) (rule a, rule b, rule c(1), rule c(2), rule c(3))
qed

lemma example_input_nth:
  assumes "i < 3"
  shows "\<exists>h w. example_input b ! i = const_map b [0] h w"
proof -
  from assms have "i = 0 \<or> i = 1 \<or> i = 2" by arith
  then show ?thesis
    by (elim disjE) (simp_all add: example_input_def, blast+)
qed

lemma example_pyramid_nth:
  assumes "i < 3"
  shows "\<exists>h w. example_pyramid b ! i = const_map b [0] h w"
proof -
  from assms have "i = 0 \<or> i = 1 \<or> i = 2" by arith
  then show ?thesis
    by (elim disjE) (simp_all add: example_pyramid_def, blast+)
qed

lemma example_consts:
  "nat (nl example_head) = 3" "nat (nc example_head) = 1" "4 * (reg_max example_head + 1) = 8"
  "nat (nl example_head7) = 3" "training example_head7"
  by (simp_all add: example_head_def example_head7_def)


lemma example_pyramid_areas:
  "sum_list (map area (example_pyramid b)) = 21"
  "sum_list (map area (take 1 (example_pyramid b))) = 16"
  by (simp_all add: example_pyramid_def area_def)

lemma example_values:
  "at4 (const_map 2 [0] 2 2) 1 0 1 1 = 0"
  "at4 (const_map 2 [0, 0, 0, 0, 0, 0, 0, 0] 2 2) 1 5 1 1 = 0"
  "at4 (const_map 2 [1, 2, 3, 4] 2 2) 1 2 1 1 = 3"
  by (simp_all add: at4_def const_map_def replicate_numeral)

theorem forward_train_shapes_witness:
  "\<exists>x' cls distri lrtb.
       forward_train example_head (example_pyramid 2) = Inr (x', cls, distri, lrtb)
     \<and> shape cls = [2, 21, 1] \<and> shape distri = [2, 21, 8] \<and> shape lrtb = [2, 21, 4]
     \<and> at3 cls 1 19 0 = sigmoid 0 \<and> at3 distri 1 19 5 = 0 \<and> at3 lrtb 1 19 2 = 3"
proof -
  have n: "0 < nat (nl example_head)" by (simp add: example_consts)
  have lx: "length (example_pyramid 2) = nat (nl example_head)"
    by (simp add: example_consts example_pyramid_def)
  have tb: "\<exists>f. train_branch example_head (const_map 2 [0] h w) i
       = Inr (f, const_map 2 [0] h w, const_map 2 [0, 0, 0, 0, 0, 0, 0, 0] h w,
              const_map 2 [1, 2, 3, 4] h w)" if "i < 3" for i h w
    unfolding example_train_branch [OF that] by simp
  have c0: "\<forall>i < nat (nl example_head). \<exists>c h w f co ro rl.
        shape (example_pyramid 2 ! i) = [2, c, h, w]
        \<and> train_branch example_head (example_pyramid 2 ! i) i = Inr (f, co, ro, rl)
        \<and> shape co = [2, 1, h, w] \<and> shape ro = [2, 8, h, w] \<and> shape rl = [2, 4, h, w]"
    by (rule example_contract [OF tb example_pyramid_nth example_consts(1)])
  have c: "\<forall>i < nat (nl example_head). \<exists>c h w f co ro rl.
        shape (example_pyramid 2 ! i) = [2, c, h, w]
        \<and> train_branch example_head (example_pyramid 2 ! i) i = Inr (f, co, ro, rl)
        \<and> shape co = [2, nat (nc example_head), h, w]
        \<and> shape ro = [2, 4 * (reg_max example_head + 1), h, w]
        \<and> shape rl = [2, 4, h, w]"
    unfolding example_consts(2,3) by (rule c0)
  note T = forward_train_shapes [OF n lx c, unfolded example_consts(1,2,3) example_pyramid_areas(1)]
  from T obtain x' cls distri lrtb where
    fw: "forward_train example_head (example_pyramid 2) = Inr (x', cls, distri, lrtb)"
    and s: "shape cls = [2, 21, 1]" "shape distri = [2, 21, 8]" "shape lrtb = [2, 21, 4]"
    and el: "\<forall>i < 3. \<forall>c h w f co ro rl.
          shape (example_pyramid 2 ! i) = [2, c, h, w]
          \<and> train_branch example_head (example_pyramid 2 ! i) i = Inr (f, co, ro, rl) \<longrightarrow>
          (\<forall>bi < 2. \<forall>r < h. \<forall>col < w.
             (\<forall>k < 1. at3 cls bi (sum_list (map area (take i (example_pyramid 2))) + (r * w + col)) k
                          = sigmoid (at4 co bi k r col))
           \<and> (\<forall>k < 8. at3 distri bi (sum_list (map area (take i (example_pyramid 2))) + (r * w + col)) k
                          = at4 ro bi k r col)
           \<and> (\<forall>k < 4. at3 lrtb bi (sum_list (map area (take i (example_pyramid 2))) + (r * w + col)) k
                          = at4 rl bi k r col))"
    by (elim exE conjE)
  have p1: "example_pyramid 2 ! 1 = const_map 2 [0] 2 2" by (simp add: example_pyramid_def)
  have sh1: "shape (example_pyramid 2 ! 1) = [2, 1, 2, 2]" unfolding p1 by simp
  have tb1: "train_branch example_head (example_pyramid 2 ! 1) 1
       = Inr (const_map 2 [0] 2 2, const_map 2 [0] 2 2, const_map 2 [0, 0, 0, 0, 0, 0, 0, 0] 2 2,
              const_map 2 [1, 2, 3, 4] 2 2)"
    unfolding p1 by (rule example_train_branch) simp
  have e: "(\<forall>k < 1. at3 cls 1 (sum_list (map area (take 1 (example_pyramid 2))) + (1 * 2 + 1)) k
                          = sigmoid (at4 (const_map 2 [0] 2 2) 1 k 1 1))
           \<and> (\<forall>k < 8. at3 distri 1 (sum_list (map area (take 1 (example_pyramid 2))) + (1 * 2 + 1)) k
                          = at4 (const_map 2 [0, 0, 0, 0, 0, 0, 0, 0] 2 2) 1 k 1 1)
           \<and> (\<forall>k < 4. at3 lrtb 1 (sum_list (map area (take 1 (example_pyramid 2))) + (1 * 2 + 1)) k
                          = at4 (const_map 2 [1, 2, 3, 4] 2 2) 1 k 1 1)"
    by (rule el [rule_format]) (simp, rule conjI, rule sh1, rule tb1, simp_all)
  have nn: "16 + (1 * 2 + 1) = (19::nat)" by simp
  from e have e1: "at3 cls 1 19 0 = sigmoid 0"
    unfolding example_pyramid_areas(2) nn using example_values(1) by simp
  from e have e2: "at3 distri 1 19 5 = 0"
    unfolding example_pyramid_areas(2) nn using example_values(2) by simp
  from e have e3: "at3 lrtb 1 19 2 = 3"
    unfolding example_pyramid_areas(2) nn using example_values(3) by simp
  show ?thesis
    by (intro exI conjI) (rule fw, rule s(1), rule s(2), rule s(3), rule e1, rule e2, rule e3)
qed


lemma example_train:
  "\<exists>x' cls distri lrtb.
       forward_train example_head (example_input 1) = Inr (x', cls, distri, lrtb)
     \<and> data cls = replicate 7 (sigmoid 0) \<and> data lrtb = concat (replicate 7 [1, 2, 3, 4])"
  by (simp add: train_defs example_defs upt_rec replicate_numeral)

lemma example_train7:
  "\<exists>x' cls distri lrtb.
       forward_train example_head7 (example_input 1) = Inr (x', cls, distri, lrtb)"
  by (simp add: train_defs example_defs upt_rec replicate_numeral)

lemma example_eval_locals_inference:
  "\<exists>locs. forward_eval_locals (example_head\<lparr>training := False\<rparr>) (example_input 1) = Inr locs"
  by (simp add: eval_defs example_defs upt_rec replicate_numeral)


theorem classification_sigmoid_range_witness:
  "\<exists>x' cls distri lrtb outs.
       forward_train example_head (example_input 1) = Inr (x', cls, distri, lrtb)
     \<and> sigmoid 0 \<in> set (data cls) \<and> 0 \<le> sigmoid 0 \<and> sigmoid 0 \<le> 1
     \<and> 3 \<in> set (data lrtb)
     \<and> (\<exists>i f co ro rl. i < 3 \<and> train_branch example_head (example_input 1 ! i) i = Inr (f, co, ro, rl)
           \<and> 3 \<in> set (data rl))
     \<and> forward_eval example_head (example_input 1) = Inr outs \<and> length outs = 3
     \<and> at4 (outs ! 0) 0 1 1 5 = sigmoid 0
     \<and> 0 \<le> at4 (outs ! 0) 0 1 1 5 \<and> at4 (outs ! 0) 0 1 1 5 \<le> 1"
proof -
  from example_train obtain x' cls distri lrtb where
    fw: "forward_train example_head (example_input 1) = Inr (x', cls, distri, lrtb)"
    and dc: "data cls = replicate 7 (sigmoid 0)"
    and dl: "data lrtb = concat (replicate 7 [1, 2, 3, 4])"
    by blast
  from example_eval_locals obtain locs
    where l: "forward_eval_locals example_head (example_input 1) = Inr locs" by blast
  define outs where "outs = map scale_output locs"
  have fe: "forward_eval example_head (example_input 1) = Inr outs"
    unfolding forward_eval_Inr outs_def using l by blast
  have m1: "sigmoid 0 \<in> set (data cls)" unfolding dc by simp
  have m3: "3 \<in> set (data lrtb)" unfolding dl by (simp add: replicate_numeral)
  note T = classification_sigmoid_range [of example_head "example_input 1" x' cls distri lrtb outs]
  note Tt = T [THEN conjunct1, THEN mp, OF fw]
  note Te = T [THEN conjunct2, THEN mp, OF fe, unfolded example_consts(1)]
  note T1 = Tt [THEN conjunct1, THEN bspec, OF m1]
  from T1 have r1: "0 \<le> sigmoid 0" "sigmoid 0 \<le> 1" by (rule conjunct1, rule conjunct2 [THEN conjunct1])
  note T3 = Tt [THEN conjunct2, THEN conjunct2, THEN bspec, OF m3, unfolded example_consts(1)]
  from T3 have r3: "\<exists>i f co ro rl. i < 3
      \<and> train_branch example_head (example_input 1 ! i) i = Inr (f, co, ro, rl) \<and> 3 \<in> set (data rl)"
    by blast
  from Te have len: "length outs = 3" by (rule conjunct1)
  have z: "(0::nat) < 3" by simp
  from Te [THEN conjunct2, THEN spec, of 0, THEN mp, OF z] obtain b c h w K co ro where
    sx: "shape (example_input 1 ! 0) = [b, c, h, w]"
    and eb: "eval_branch example_head (example_input 1 ! 0) 0 = Inr (co, ro)"
    and sco: "shape co = [b, K, h, w]"
    and el: "\<forall>bi < b. \<forall>r < h. \<forall>col < w. \<forall>k < K.
                at4 (outs ! 0) bi r col (5 + k) = sigmoid (at4 co bi k r col)
              \<and> 0 \<le> at4 (outs ! 0) bi r col (5 + k) \<and> at4 (outs ! 0) bi r col (5 + k) \<le> 1"
    by (elim exE conjE)
  have sh: "shape (example_input 1 ! 0) = [1, 1, 2, 2]" by (simp add: example_input_def)
  from sx sh have d: "b = 1" "h = 2" "w = 2" by simp_all
  from eb example_eval_branch0 have co: "co = const_map 1 [0] 2 2" by simp
  from sco have K: "K = 1" unfolding co by simp
  have v: "at4 (const_map 1 [0] 2 2) 0 0 1 1 = 0"
    by (simp add: at4_def const_map_def replicate_numeral)
  have "at4 (outs ! 0) 0 1 1 (5 + 0) = sigmoid (at4 co 0 0 1 1)
              \<and> 0 \<le> at4 (outs ! 0) 0 1 1 (5 + 0) \<and> at4 (outs ! 0) 0 1 1 (5 + 0) \<le> 1"
    by (rule el [rule_format]) (simp_all add: d K)
  then have e: "at4 (outs ! 0) 0 1 1 5 = sigmoid 0"
     "0 \<le> at4 (outs ! 0) 0 1 1 5" "at4 (outs ! 0) 0 1 1 5 \<le> 1"
    unfolding co v by simp_all
  have "forward_train example_head (example_input 1) = Inr (x', cls, distri, lrtb)
     \<and> sigmoid 0 \<in> set (data cls) \<and> 0 \<le> sigmoid 0 \<and> sigmoid 0 \<le> 1
     \<and> 3 \<in> set (data lrtb)
     \<and> (\<exists>i f co ro rl. i < 3 \<and> train_branch example_head (example_input 1 ! i) i = Inr (f, co, ro, rl)
           \<and> 3 \<in> set (data rl))
     \<and> forward_eval example_head (example_input 1) = Inr outs \<and> length outs = 3
     \<and> at4 (outs ! 0) 0 1 1 5 = sigmoid 0
     \<and> 0 \<le> at4 (outs ! 0) 0 1 1 5 \<and> at4 (outs ! 0) 0 1 1 5 \<le> 1"
    by (intro conjI) (rule fw, rule m1, rule r1(1), rule r1(2), rule m3, rule r3,
      rule fe, rule len, rule e(1), rule e(2), rule e(3))
  then show ?thesis by blast
qed

theorem forward_list_aliasing_witness:
  "\<exists>s' cls distri lrtb outputs.
       forward example_head7 (\<lambda>a. example_input 1) 0 = Inr (s', TrainOut 0 cls distri lrtb)
     \<and> length (s' 0) = 3 \<and> s' 0 ! 0 = const_map 1 [7] 2 2 \<and> s' 0 ! 3 = example_input 1 ! 3
     \<and> s' 1 = example_input 1
     \<and> forward (example_head\<lparr>training := False\<rparr>) (\<lambda>a. example_input 1) 0
          = Inr (\<lambda>a. example_input 1, EvalOut outputs)"
proof -
  define s :: store where "s = (\<lambda>a. example_input 1)"
  have sa: "s a = example_input 1" for a by (simp add: s_def)
  from example_train7 obtain x' cls distri lrtb where
    fw: "forward_train example_head7 (example_input 1) = Inr (x', cls, distri, lrtb)"
    by blast
  have tr: "training example_head7" by (rule example_consts(5))
  have ft: "forward example_head7 s 0 = Inr (s(0 := x'), TrainOut 0 cls distri lrtb)"
    unfolding forward_def sa fw using tr by simp
  note T = forward_list_aliasing [of example_head7 s 0 "s(0 := x')" "TrainOut 0 cls distri lrtb",
      THEN conjunct1, THEN mp, OF conjI [OF tr ft], unfolded example_consts(4) sa]
  from T have a: "length ((s(0 := x')) 0) = 3"
    by (simp add: example_input_def)
  have z: "(0::nat) < 3" by simp
  have st: "stems example_head7 ! 0 = bias_layer [7]" by (simp add: example_head7_def)
  have cl: "call (bias_layer [7]) (example_input 1 ! 0) = Inr (const_map 1 [7] 2 2)"
    by (rule call_bias_layer) (simp add: example_input_def)
  from T [THEN conjunct2, THEN conjunct2, THEN conjunct1, THEN spec, of 0, THEN mp, OF z]
  have b: "(s(0 := x')) 0 ! 0 = const_map 1 [7] 2 2" unfolding st cl by simp
  from T have c: "(s(0 := x')) 0 ! 3 = example_input 1 ! 3" by simp
  from T have d: "(s(0 := x')) 1 = example_input 1" by (simp add: sa)
  from example_eval_locals_inference obtain locs where
    l: "forward_eval_locals (example_head\<lparr>training := False\<rparr>) (example_input 1) = Inr locs" by blast
  have fe: "forward (example_head\<lparr>training := False\<rparr>) s 0 = Inr (s, EvalOut (map scale_output locs))"
    unfolding forward_def forward_eval_def sa l by simp
  have nt: "\<not> training (example_head\<lparr>training := False\<rparr>)" by simp
  note E = forward_list_aliasing [of "example_head\<lparr>training := False\<rparr>" s 0 s "EvalOut (map scale_output locs)",
      THEN conjunct2, THEN mp, OF conjI [OF nt fe]]
  from E obtain outputs where "EvalOut (map scale_output locs) = EvalOut outputs" by blast
  with fe have e: "forward (example_head\<lparr>training := False\<rparr>) s 0 = Inr (s, EvalOut outputs)" by simp
  from ft a b c d e show ?thesis unfolding s_def by blast
qed

end
